theory Spec2Isabelle
  imports Main
begin

section \<open>Python values\<close>

text \<open>
  A Python \<open>str\<close> is a sequence of Unicode code points, and \<open>len\<close> counts code points.
  A code point is a natural number here; \<open>u\<close> turns an ASCII literal into such a string.
\<close>

type_synonym pystr = "nat list"

definition u :: "string \<Rightarrow> pystr" where
  "u s = map of_char s"

text \<open>Decimal text of a number, as \<open>str(n)\<close> and \<open>f"{n}"\<close> give it.\<close>

fun str_of_nat :: "nat \<Rightarrow> pystr" where
  "str_of_nat n = (if n < 10 then [48 + n] else str_of_nat (n div 10) @ [48 + n mod 10])"

declare str_of_nat.simps [simp del]

definition str_of_int :: "int \<Rightarrow> pystr" where
  "str_of_int i = (if i < 0 then 45 # str_of_nat (nat (- i)) else str_of_nat (nat i))"

text \<open>
  The values that the remote API hands over after JSON decoding: \<open>None\<close>, \<open>bool\<close>,
  \<open>int\<close>, \<open>float\<close> (a finite double \<open>m * 2^e\<close>), \<open>str\<close>, \<open>list\<close> and \<open>dict\<close>
  (keys are strings; lookup takes the first binding of a key).
\<close>

datatype json =
    JNull
  | JBool bool
  | JInt int
  | JFloat int int
  | JStr pystr
  | JList "json list"
  | JDict "(pystr \<times> json) list"

text \<open>
  Exceptions. The first three are raised by the interpreter, \<open>ValueError\<close> and
  \<open>Exception\<close> by the program with the given text, \<open>RemoteError\<close> by the API client or
  the HTTP library and \<open>OSError\<close> by the file system, with the text of \<open>str(e)\<close>.
\<close>

datatype exn =
    AttributeError
  | TypeError
  | KeyError
  | ValueError pystr
  | Exception pystr
  | RemoteError pystr
  | OSError pystr

text \<open>Truth value of an object, as \<open>if x:\<close> and \<open>not x\<close> test it.\<close>

fun truthy :: "json \<Rightarrow> bool" where
  "truthy JNull = False"
| "truthy (JBool b) = b"
| "truthy (JInt i) = (i \<noteq> 0)"
| "truthy (JFloat m e) = (m \<noteq> 0)"
| "truthy (JStr s) = (s \<noteq> [])"
| "truthy (JList xs) = (xs \<noteq> [])"
| "truthy (JDict kvs) = (kvs \<noteq> [])"

text \<open>\<open>obj.get(key, default)\<close>: only a dict has the method.\<close>

fun py_get :: "json \<Rightarrow> pystr \<Rightarrow> json \<Rightarrow> exn + json" where
  "py_get (JDict kvs) k d = Inr (case map_of kvs k of None \<Rightarrow> d | Some v \<Rightarrow> v)"
| "py_get _ k d = Inl AttributeError"

text \<open>The elements that \<open>for x in obj\<close> visits: a dict gives its keys, a string its characters.\<close>

fun py_iter :: "json \<Rightarrow> exn + json list" where
  "py_iter (JList xs) = Inr xs"
| "py_iter (JDict kvs) = Inr (map JStr (remdups (map fst kvs)))"
| "py_iter (JStr s) = Inr (map (\<lambda>c. JStr [c]) s)"
| "py_iter _ = Inl TypeError"

text \<open>\<open>sep.join(xs)\<close>: every element has to be a string.\<close>

fun join_strs :: "pystr \<Rightarrow> pystr list \<Rightarrow> pystr" where
  "join_strs sep [] = []"
| "join_strs sep [s] = s"
| "join_strs sep (s # t # ss) = s @ sep @ join_strs sep (t # ss)"

fun strs_of :: "json list \<Rightarrow> exn + pystr list" where
  "strs_of [] = Inr []"
| "strs_of (JStr s # vs) = (case strs_of vs of Inl e \<Rightarrow> Inl e | Inr ss \<Rightarrow> Inr (s # ss))"
| "strs_of (_ # vs) = Inl TypeError"

definition py_join :: "pystr \<Rightarrow> json list \<Rightarrow> exn + pystr" where
  "py_join sep vs = (case strs_of vs of Inl e \<Rightarrow> Inl e | Inr ss \<Rightarrow> Inr (join_strs sep ss))"

text \<open>\<open>pat in s\<close> on strings is the substring test.\<close>

fun contains_str :: "pystr \<Rightarrow> pystr \<Rightarrow> bool" where
  "contains_str pat [] = (pat = [])"
| "contains_str pat (c # cs) = (take (length pat) (c # cs) = pat \<or> contains_str pat cs)"

text \<open>\<open>key in obj\<close> for a string \<open>key\<close>.\<close>

fun py_in :: "pystr \<Rightarrow> json \<Rightarrow> exn + bool" where
  "py_in k (JDict kvs) = Inr (k \<in> set (map fst kvs))"
| "py_in k (JList xs) = Inr (JStr k \<in> set xs)"
| "py_in k (JStr s) = Inr (contains_str k s)"
| "py_in k _ = Inl TypeError"

text \<open>\<open>obj[key]\<close> for a string \<open>key\<close>.\<close>

fun py_item :: "json \<Rightarrow> pystr \<Rightarrow> exn + json" where
  "py_item (JDict kvs) k = (case map_of kvs k of None \<Rightarrow> Inl KeyError | Some v \<Rightarrow> Inr v)"
| "py_item _ k = Inl TypeError"

text \<open>
  \<open>str(v)\<close>, which an f-string applies to a field. The text of a list, dict or float
  comes from the interpreter's \<open>repr\<close>, taken as the parameter \<open>rp\<close>.
\<close>

fun py_str :: "(json \<Rightarrow> pystr) \<Rightarrow> json \<Rightarrow> pystr" where
  "py_str rp JNull = u ''None''"
| "py_str rp (JBool b) = (if b then u ''True'' else u ''False'')"
| "py_str rp (JInt i) = str_of_int i"
| "py_str rp (JStr s) = s"
| "py_str rp v = rp v"

text \<open>
  A stand-in for \<open>repr\<close> in examples whose values are only strings and numbers, where
  it is never consulted.
\<close>

definition plain_repr :: "json \<Rightarrow> pystr" where
  "plain_repr v = []"

text \<open>Sequencing of steps that may raise: the first exception ends the computation.\<close>

definition bind_exn :: "exn + 'a \<Rightarrow> ('a \<Rightarrow> exn + 'b) \<Rightarrow> exn + 'b" where
  "bind_exn m f = (case m of Inl e \<Rightarrow> Inl e | Inr x \<Rightarrow> f x)"

section \<open>Data classes\<close>

text \<open>
  \<open>Track\<close> declares \<open>name\<close>, \<open>artist\<close>, \<open>album\<close> and \<open>url\<close> as \<open>str\<close> and
  \<open>duration_ms\<close> as \<open>int\<close>, but nothing checks the declaration: the constructor stores
  whatever the raw record held. Only \<open>artist\<close> is a string by construction.
\<close>

record Track =
  name :: json
  artist :: pystr
  album :: json
  duration_ms :: json
  url :: json

definition to_dict :: "Track \<Rightarrow> json" where
  "to_dict t = JDict [(u ''name'', name t), (u ''artist'', JStr (artist t)),
     (u ''album'', album t), (u ''duration_ms'', duration_ms t), (u ''url'', url t)]"

text \<open>
  \<open>Playlist\<close>: built by the window from the playlist listing; the fields have the declared
  types. The fields \<open>id\<close> and \<open>name\<close> carry the prefix \<open>playlist_\<close> here.
\<close>

record Playlist =
  playlist_id :: pystr
  playlist_name :: pystr
  track_count :: int
  owner :: pystr
  description :: pystr

datatype ExportFormat = DISCORD | CSV | JSON | TXT | MARKDOWN

section \<open>Log records\<close>

text \<open>One constructor per logging call of the worker, with the values the message shows.\<close>

datatype log_entry =
    Info_export_cancelled
  | Warning_no_tracks_found pystr
  | Warning_skipping_item
  | Warning_no_spotify_url json
  | Warning_missing_key
  | Warning_failed_to_process exn
  | Info_exported_file ExportFormat "pystr \<times> pystr"
  | Info_exported_discord pystr
  | Exception_export_error exn

section \<open>Track normalisation\<close>

text \<open>
  The list comprehension \<open>[artist.get('name', 'Unknown Artist') for artist in artists]\<close>.
\<close>

fun artist_name_list :: "json list \<Rightarrow> exn + json list" where
  "artist_name_list [] = Inr []"
| "artist_name_list (a # as) =
     bind_exn (py_get a (u ''name'') (JStr (u ''Unknown Artist''))) (\<lambda>n.
     bind_exn (artist_name_list as) (\<lambda>ns. Inr (n # ns)))"

text \<open>
  The steps of the \<open>try\<close> block of \<open>get_playlist_tracks\<close>: the artist names, the album
  name, and the URL with the warning logged when neither a URL nor an id is found.
\<close>

definition artist_names_of :: "json \<Rightarrow> exn + pystr" where
  "artist_names_of artists =
     (if truthy artists
      then bind_exn (py_iter artists) (\<lambda>as.
           bind_exn (artist_name_list as) (\<lambda>ns. py_join (u '', '') ns))
      else Inr (u ''Unknown Artist''))"

definition album_name_of :: "json \<Rightarrow> exn + json" where
  "album_name_of album_obj =
     (if truthy album_obj then py_get album_obj (u ''name'') (JStr (u ''Unknown Album''))
      else Inr (JStr (u ''Unknown Album'')))"

definition track_url_of ::
  "(json \<Rightarrow> pystr) \<Rightarrow> json \<Rightarrow> json \<Rightarrow> json \<Rightarrow> exn + (json \<times> log_entry list)" where
  "track_url_of rp track track_name external_urls =
     bind_exn (if truthy external_urls then py_in (u ''spotify'') external_urls
               else Inr False) (\<lambda>has_url.
     if has_url
     then bind_exn (py_item external_urls (u ''spotify'')) (\<lambda>v. Inr (v, []))
     else bind_exn (py_get track (u ''id'') (JStr [])) (\<lambda>track_id.
          if truthy track_id
          then Inr (JStr (u ''https://open.spotify.com/track/'' @ py_str rp track_id), [])
          else Inr (JStr (u ''https://open.spotify.com''),
                    [Warning_no_spotify_url track_name])))"

text \<open>
  The whole \<open>try\<close> block for one truthy track record: the Track it appends and what it
  logs, or the exception it raises.
\<close>

definition process_track :: "(json \<Rightarrow> pystr) \<Rightarrow> json \<Rightarrow> exn + (Track \<times> log_entry list)" where
  "process_track rp track =
     bind_exn (py_get track (u ''name'') (JStr (u ''Unknown Track''))) (\<lambda>track_name.
     bind_exn (py_get track (u ''artists'') (JList [])) (\<lambda>artists.
     bind_exn (artist_names_of artists) (\<lambda>artist_names.
     bind_exn (py_get track (u ''album'') (JDict [])) (\<lambda>album.
     bind_exn (album_name_of album) (\<lambda>album_name.
     bind_exn (py_get track (u ''duration_ms'') (JInt 0)) (\<lambda>duration.
     bind_exn (py_get track (u ''external_urls'') (JDict [])) (\<lambda>external_urls.
     bind_exn (track_url_of rp track track_name external_urls) (\<lambda>(track_url, logs).
     Inr (\<lparr>name = track_name, artist = artist_names, album = album_name,
            duration_ms = duration, url = track_url\<rparr>, logs)))))))))"

text \<open>
  One iteration of the loop over \<open>results['items']\<close>, after the cancellation test:
  \<open>item.get('track')\<close> is outside the \<open>try\<close>, so its exception leaves the function;
  a falsy record is skipped; an exception of the \<open>try\<close> block is logged and the item skipped.
\<close>

definition process_item :: "(json \<Rightarrow> pystr) \<Rightarrow> json \<Rightarrow> exn + (Track option \<times> log_entry list)" where
  "process_item rp item =
     bind_exn (py_get item (u ''track'') JNull) (\<lambda>track.
       if \<not> truthy track then Inr (None, [Warning_skipping_item])
       else (case process_track rp track of
               Inl KeyError \<Rightarrow> Inr (None, [Warning_missing_key])
             | Inl e \<Rightarrow> Inr (None, [Warning_failed_to_process e])
             | Inr (t, logs) \<Rightarrow> Inr (Some t, logs)))"

section \<open>The worker and its surroundings\<close>

text \<open>
  A file path \<open>self.output_dir / file_name\<close>, kept as the pair of the directory and the
  file name (the file name never holds a separator, see \<open>sanitize_filename\<close>).
\<close>

type_synonym path = "pystr \<times> pystr"

text \<open>
  What a file is opened for: the rows handed to \<open>csv.DictWriter\<close> (field names, then one
  row per track in that order), the object handed to \<open>json.dump\<close>, or the text written.
\<close>

datatype content =
    Csv_rows "pystr list" "json list list"
  | Json_doc json
  | Text pystr

text \<open>
  The signals of the worker. \<open>Progress i total label\<close> stands for
  \<open>progress.emit(int((i / total) * 100), label)\<close>, whose percentage is computed in floating
  point; \<open>Progress_done\<close> for \<open>progress.emit(100, "Export completed")\<close>;
  \<open>Error e\<close> for \<open>error.emit(str(e))\<close>.
\<close>

datatype signal =
    Progress nat nat pystr
  | Progress_done
  | Finished "path list"
  | Error exn

record datetime =
  year :: nat
  month :: nat
  day :: nat
  hour :: nat
  minute :: nat
  second :: nat
  microsecond :: nat

text \<open>
  The remote listing of one playlist, as the calls \<open>sp.playlist_tracks\<close> and then
  \<open>sp.next\<close> reveal it: a call raises, returns a falsy result, returns a page without a
  \<open>next\<close> cursor, or returns a page with a cursor together with what the following call
  does. A listing is finite.
\<close>

datatype fetch =
    Fetch_raises exn
  | Fetch_falsy
  | Last_page "json list"
  | Page "json list" fetch

datatype response = Status nat | Post_raises exn

text \<open>
  The collaborators of the worker: the API client, the webhook (the outcome of the
  \<open>k\<close>-th call of \<open>requests.post\<close>, given the content), the clock (the \<open>k\<close>-th call of
  \<open>datetime.now\<close>), the file system (the exception of \<open>open(path, 'w')\<close>, if any) and
  the interpreter's \<open>repr\<close>.
\<close>

record env =
  playlist_tracks :: "pystr \<Rightarrow> fetch"
  post_response :: "nat \<Rightarrow> pystr \<Rightarrow> response"
  now :: "nat \<Rightarrow> datetime"
  open_fails :: "path \<Rightarrow> exn option"
  py_repr :: "json \<Rightarrow> pystr"

text \<open>
  The worker object with the traces of its effects. The flag \<open>_is_cancelled\<close> is set by
  another thread and only read here: \<open>polls_until_cancel\<close> is the number of reads that
  still see \<open>False\<close> (\<open>None\<close>: the flag is never set). \<open>emitted\<close>, \<open>logged\<close>,
  \<open>files\<close> and \<open>posts\<close> record the signals, the log records, the files written and the
  webhook contents posted, in order.
\<close>

record worker =
  export_format :: ExportFormat
  playlists :: "Playlist list"
  output_dir :: pystr
  webhook_url :: pystr
  polls_until_cancel :: "nat option"
  exported_files :: "path list"
  emitted :: "signal list"
  logged :: "log_entry list"
  files :: "(path \<times> content) list"
  posts :: "pystr list"
  clock_reads :: nat

definition poll_cancelled :: "worker \<Rightarrow> bool \<times> worker" where
  "poll_cancelled w =
     (case polls_until_cancel w of
        None \<Rightarrow> (False, w)
      | Some 0 \<Rightarrow> (True, w)
      | Some (Suc n) \<Rightarrow> (False, w\<lparr>polls_until_cancel := Some n\<rparr>))"

definition emit :: "signal \<Rightarrow> worker \<Rightarrow> worker" where
  "emit s w = w\<lparr>emitted := emitted w @ [s]\<rparr>"

definition log_all :: "log_entry list \<Rightarrow> worker \<Rightarrow> worker" where
  "log_all ls w = w\<lparr>logged := logged w @ ls\<rparr>"

definition read_clock :: "env \<Rightarrow> worker \<Rightarrow> datetime \<times> worker" where
  "read_clock ev w = (now ev (clock_reads w), w\<lparr>clock_reads := Suc (clock_reads w)\<rparr>)"

definition write_file :: "env \<Rightarrow> path \<Rightarrow> content \<Rightarrow> worker \<Rightarrow> (exn + unit) \<times> worker" where
  "write_file ev p c w =
     (case open_fails ev p of
        Some e \<Rightarrow> (Inl e, w)
      | None \<Rightarrow> (Inr (), w\<lparr>files := files w @ [(p, c)]\<rparr>))"

section \<open>Pagination\<close>

text \<open>
  The loop \<open>for item in results['items']\<close> of \<open>get_playlist_tracks\<close> (the definition
  that is in force, the second of the class): the flag is read before each item. The result
  tells whether the function returned from inside the loop.
\<close>

fun items_loop ::
  "(json \<Rightarrow> pystr) \<Rightarrow> json list \<Rightarrow> Track list \<Rightarrow> worker \<Rightarrow> (exn + bool \<times> Track list) \<times> worker" where
  "items_loop rp [] tracks w = (Inr (False, tracks), w)"
| "items_loop rp (item # items) tracks w =
     (case poll_cancelled w of
        (True, w1) \<Rightarrow> (Inr (True, tracks), w1)
      | (False, w1) \<Rightarrow>
          (case process_item rp item of
             Inl e \<Rightarrow> (Inl e, w1)
           | Inr (r, logs) \<Rightarrow>
               items_loop rp items (case r of None \<Rightarrow> tracks | Some t \<Rightarrow> tracks @ [t])
                 (log_all logs w1)))"

text \<open>
  The loop \<open>while results\<close>: neither \<open>sp.playlist_tracks\<close> nor \<open>sp.next\<close> is inside a
  \<open>try\<close>, so an exception of a fetch leaves the function and the tracks are lost.
\<close>

fun pages_loop ::
  "(json \<Rightarrow> pystr) \<Rightarrow> fetch \<Rightarrow> Track list \<Rightarrow> worker \<Rightarrow> (exn + Track list) \<times> worker" where
  "pages_loop rp (Fetch_raises e) tracks w = (Inl e, w)"
| "pages_loop rp Fetch_falsy tracks w = (Inr tracks, w)"
| "pages_loop rp (Last_page items) tracks w =
     (case items_loop rp items tracks w of
        (Inl e, w1) \<Rightarrow> (Inl e, w1)
      | (Inr (_, tracks1), w1) \<Rightarrow> (Inr tracks1, w1))"
| "pages_loop rp (Page items nxt) tracks w =
     (case items_loop rp items tracks w of
        (Inl e, w1) \<Rightarrow> (Inl e, w1)
      | (Inr (True, tracks1), w1) \<Rightarrow> (Inr tracks1, w1)
      | (Inr (False, tracks1), w1) \<Rightarrow> pages_loop rp nxt tracks1 w1)"

definition get_playlist_tracks :: "env \<Rightarrow> pystr \<Rightarrow> worker \<Rightarrow> (exn + Track list) \<times> worker" where
  "get_playlist_tracks ev pid w = pages_loop (py_repr ev) (playlist_tracks ev pid) [] w"

section \<open>File names\<close>

text \<open>
  The characters of the first pattern \<open>[<>:"/\\|?*]\<close>, by code point:
  \<open><\<close> 60, \<open>>\<close> 62, \<open>:\<close> 58, the double quote 34, \<open>/\<close> 47, the backslash 92,
  \<open>|\<close> 124, \<open>?\<close> 63, \<open>*\<close> 42.
\<close>

definition forbidden_chars :: "nat list" where
  "forbidden_chars = [60, 62, 58, 34, 47, 92, 124, 63, 42]"

text \<open>The second pattern \<open>[\x00-\x1f\x7f-\x9f]\<close>: the control characters.\<close>

definition control_char :: "nat \<Rightarrow> bool" where
  "control_char c \<longleftrightarrow> c \<le> 31 \<or> (127 \<le> c \<and> c \<le> 159)"

text \<open>\<open>s.strip(chars)\<close> removes the characters of \<open>chars\<close> from both ends.\<close>

definition strip :: "nat list \<Rightarrow> pystr \<Rightarrow> pystr" where
  "strip cs s = rev (dropWhile (\<lambda>c. c \<in> set cs) (rev (dropWhile (\<lambda>c. c \<in> set cs) s)))"

text \<open>The value of \<open>filename\<close> after the two substitutions and \<open>strip('. ')\<close>.\<close>

definition stripped_name :: "pystr \<Rightarrow> pystr" where
  "stripped_name filename =
     strip (u ''. '')
       (filter (\<lambda>c. \<not> control_char c) (filter (\<lambda>c. c \<notin> set forbidden_chars) filename))"

definition sanitize_filename :: "pystr \<Rightarrow> pystr" where
  "sanitize_filename filename =
     (let f = stripped_name filename in if f \<noteq> [] then take 200 f else u ''playlist'')"

text \<open>\<open>strftime\<close> and \<open>isoformat\<close>: fields padded with zeros to their width.\<close>

definition zpad :: "nat \<Rightarrow> nat \<Rightarrow> pystr" where
  "zpad k n = replicate (k - length (str_of_nat n)) 48 @ str_of_nat n"

definition strftime_stamp :: "datetime \<Rightarrow> pystr" where
  "strftime_stamp d = zpad 4 (year d) @ zpad 2 (month d) @ zpad 2 (day d) @ u ''_''
     @ zpad 2 (hour d) @ zpad 2 (minute d) @ zpad 2 (second d)"

definition strftime_human :: "datetime \<Rightarrow> pystr" where
  "strftime_human d = zpad 4 (year d) @ u ''-'' @ zpad 2 (month d) @ u ''-'' @ zpad 2 (day d)
     @ u '' '' @ zpad 2 (hour d) @ u '':'' @ zpad 2 (minute d) @ u '':'' @ zpad 2 (second d)"

definition isoformat :: "datetime \<Rightarrow> pystr" where
  "isoformat d = zpad 4 (year d) @ u ''-'' @ zpad 2 (month d) @ u ''-'' @ zpad 2 (day d)
     @ u ''T'' @ zpad 2 (hour d) @ u '':'' @ zpad 2 (minute d) @ u '':'' @ zpad 2 (second d)
     @ (if microsecond d = 0 then [] else u ''.'' @ zpad 6 (microsecond d))"

text \<open>The name \<open>f"{safe_name}_{timestamp}.<ext>"\<close> that every file export builds.\<close>

definition file_name :: "pystr \<Rightarrow> datetime \<Rightarrow> pystr \<Rightarrow> pystr" where
  "file_name pname d ext = sanitize_filename pname @ u ''_'' @ strftime_stamp d @ u ''.'' @ ext"

section \<open>Serialisers\<close>

definition nl :: pystr where
  "nl = [10]"

text \<open>\<open>enumerate(xs, 1)\<close>.\<close>

definition enumerate1 :: "'a list \<Rightarrow> (nat \<times> 'a) list" where
  "enumerate1 xs = zip [1..<Suc (length xs)] xs"

definition csv_fieldnames :: "pystr list" where
  "csv_fieldnames = [u ''name'', u ''artist'', u ''album'', u ''duration_ms'', u ''url'']"

definition csv_row :: "Track \<Rightarrow> json list" where
  "csv_row t = [name t, JStr (artist t), album t, duration_ms t, url t]"

definition export_to_csv :: "env \<Rightarrow> Playlist \<Rightarrow> Track list \<Rightarrow> worker \<Rightarrow> (exn + path) \<times> worker" where
  "export_to_csv ev playlist tracks w =
     (let (d, w1) = read_clock ev w;
          filename = (output_dir w1, file_name (playlist_name playlist) d (u ''csv''))
      in case write_file ev filename (Csv_rows csv_fieldnames (map csv_row tracks)) w1 of
           (Inl e, w2) \<Rightarrow> (Inl e, w2)
         | (Inr _, w2) \<Rightarrow> (Inr filename, log_all [Info_exported_file CSV filename] w2))"

text \<open>The object \<open>data\<close> that \<open>export_to_json\<close> hands to \<open>json.dump\<close>.\<close>

definition json_data :: "Playlist \<Rightarrow> Track list \<Rightarrow> datetime \<Rightarrow> json" where
  "json_data playlist tracks d =
     JDict [(u ''playlist'',
               JDict [(u ''name'', JStr (playlist_name playlist)),
                      (u ''owner'', JStr (owner playlist)),
                      (u ''description'', JStr (description playlist)),
                      (u ''track_count'', JInt (int (length tracks)))]),
            (u ''tracks'', JList (map to_dict tracks)),
            (u ''exported_at'', JStr (isoformat d))]"

definition export_to_json :: "env \<Rightarrow> Playlist \<Rightarrow> Track list \<Rightarrow> worker \<Rightarrow> (exn + path) \<times> worker" where
  "export_to_json ev playlist tracks w =
     (let (d, w1) = read_clock ev w;
          filename = (output_dir w1, file_name (playlist_name playlist) d (u ''json''));
          (d2, w2) = read_clock ev w1
      in case write_file ev filename (Json_doc (json_data playlist tracks d2)) w2 of
           (Inl e, w3) \<Rightarrow> (Inl e, w3)
         | (Inr _, w3) \<Rightarrow> (Inr filename, log_all [Info_exported_file JSON filename] w3))"

definition txt_entry :: "(json \<Rightarrow> pystr) \<Rightarrow> nat \<times> Track \<Rightarrow> pystr" where
  "txt_entry rp it =
     str_of_nat (fst it) @ u ''. '' @ py_str rp (name (snd it)) @ nl
     @ u ''   Artist: '' @ artist (snd it) @ nl
     @ u ''   Album: '' @ py_str rp (album (snd it)) @ nl
     @ u ''   URL: '' @ py_str rp (url (snd it)) @ nl @ nl"

definition txt_text :: "(json \<Rightarrow> pystr) \<Rightarrow> Playlist \<Rightarrow> Track list \<Rightarrow> datetime \<Rightarrow> pystr" where
  "txt_text rp playlist tracks d =
     u ''Playlist: '' @ playlist_name playlist @ nl
     @ u ''Owner: '' @ owner playlist @ nl
     @ u ''Tracks: '' @ str_of_nat (length tracks) @ nl
     @ u ''Exported: '' @ strftime_human d @ nl
     @ replicate 80 61 @ nl @ nl
     @ concat (map (txt_entry rp) (enumerate1 tracks))"

definition export_to_txt :: "env \<Rightarrow> Playlist \<Rightarrow> Track list \<Rightarrow> worker \<Rightarrow> (exn + path) \<times> worker" where
  "export_to_txt ev playlist tracks w =
     (let (d, w1) = read_clock ev w;
          filename = (output_dir w1, file_name (playlist_name playlist) d (u ''txt''))
      in case open_fails ev filename of
           Some e \<Rightarrow> (Inl e, w1)
         | None \<Rightarrow>
             (let (d2, w2) = read_clock ev w1;
                  w3 = w2\<lparr>files := files w2
                         @ [(filename, Text (txt_text (py_repr ev) playlist tracks d2))]\<rparr>
              in (Inr filename, log_all [Info_exported_file TXT filename] w3)))"

definition markdown_entry :: "(json \<Rightarrow> pystr) \<Rightarrow> nat \<times> Track \<Rightarrow> pystr" where
  "markdown_entry rp it =
     str_of_nat (fst it) @ u ''. **'' @ py_str rp (name (snd it)) @ u ''** - ''
       @ artist (snd it) @ u ''  '' @ nl
     @ u ''   *'' @ py_str rp (album (snd it)) @ u ''*  '' @ nl
     @ u ''   [Listen on Spotify]('' @ py_str rp (url (snd it)) @ u '')'' @ nl @ nl"

definition markdown_text :: "(json \<Rightarrow> pystr) \<Rightarrow> Playlist \<Rightarrow> Track list \<Rightarrow> datetime \<Rightarrow> pystr" where
  "markdown_text rp playlist tracks d =
     u ''# '' @ playlist_name playlist @ nl @ nl
     @ u ''**Owner:** '' @ owner playlist @ u ''  '' @ nl
     @ u ''**Tracks:** '' @ str_of_nat (length tracks) @ u ''  '' @ nl
     @ u ''**Exported:** '' @ strftime_human d @ u ''  '' @ nl @ nl
     @ (if description playlist \<noteq> [] then u ''*'' @ description playlist @ u ''*'' @ nl @ nl
        else [])
     @ u ''---'' @ nl @ nl
     @ u ''## Tracks'' @ nl @ nl
     @ concat (map (markdown_entry rp) (enumerate1 tracks))"

definition export_to_markdown :: "env \<Rightarrow> Playlist \<Rightarrow> Track list \<Rightarrow> worker \<Rightarrow> (exn + path) \<times> worker" where
  "export_to_markdown ev playlist tracks w =
     (let (d, w1) = read_clock ev w;
          filename = (output_dir w1, file_name (playlist_name playlist) d (u ''md''))
      in case open_fails ev filename of
           Some e \<Rightarrow> (Inl e, w1)
         | None \<Rightarrow>
             (let (d2, w2) = read_clock ev w1;
                  w3 = w2\<lparr>files := files w2
                         @ [(filename, Text (markdown_text (py_repr ev) playlist tracks d2))]\<rparr>
              in (Inr filename, log_all [Info_exported_file MARKDOWN filename] w3)))"

section \<open>Webhook relay\<close>

text \<open>
  The header of \<open>export_to_discord\<close> (the definition in force): the rule is forty times
  the box-drawing character U+2500, the separator before the count is the bullet U+2022.
\<close>

definition discord_header :: "Playlist \<Rightarrow> Track list \<Rightarrow> pystr" where
  "discord_header playlist tracks =
     replicate 40 9472 @ nl @ nl
     @ u ''##'' @ playlist_name playlist @ nl
     @ u ''*By '' @ owner playlist @ [32, 8226, 32] @ str_of_nat (length tracks) @ u '' tracks*'' @ nl
     @ replicate 40 9472 @ nl @ nl"

definition track_line :: "(json \<Rightarrow> pystr) \<Rightarrow> nat \<times> Track \<Rightarrow> pystr" where
  "track_line rp it =
     str_of_nat (fst it) @ u ''. **'' @ py_str rp (name (snd it)) @ u ''** - ''
       @ artist (snd it) @ nl"

text \<open>
  The loop that fills \<open>messages\<close>: a line that would take \<open>current_message\<close> beyond 1800
  characters closes it (whatever it holds) and opens the next one.
\<close>

fun chunk_loop :: "pystr list \<Rightarrow> pystr list \<Rightarrow> pystr \<Rightarrow> pystr list \<times> pystr" where
  "chunk_loop [] messages current_message = (messages, current_message)"
| "chunk_loop (line # lines) messages current_message =
     (if length current_message + length line > 1800
      then chunk_loop lines (messages @ [current_message]) line
      else chunk_loop lines messages (current_message @ line))"

definition discord_messages :: "(json \<Rightarrow> pystr) \<Rightarrow> Playlist \<Rightarrow> Track list \<Rightarrow> pystr list" where
  "discord_messages rp playlist tracks =
     (let (messages, current_message) =
            chunk_loop (map (track_line rp) (enumerate1 tracks)) [discord_header playlist tracks] []
      in if current_message \<noteq> [] then messages @ [current_message] else messages)"

text \<open>
  The loop that posts the messages: the flag is read before each post; a status other than
  200 and 204 raises. The result tells whether the function returned from inside the loop.
\<close>

fun post_loop :: "env \<Rightarrow> pystr list \<Rightarrow> worker \<Rightarrow> (exn + bool) \<times> worker" where
  "post_loop ev [] w = (Inr False, w)"
| "post_loop ev (msg # msgs) w =
     (case poll_cancelled w of
        (True, w1) \<Rightarrow> (Inr True, w1)
      | (False, w1) \<Rightarrow>
          (let w2 = w1\<lparr>posts := posts w1 @ [msg]\<rparr>
           in case post_response ev (length (posts w1)) msg of
                Post_raises e \<Rightarrow> (Inl e, w2)
              | Status code \<Rightarrow>
                  if code \<noteq> 200 \<and> code \<noteq> 204
                  then (Inl (Exception (u ''Failed to send to Discord: '' @ str_of_nat code)), w2)
                  else post_loop ev msgs w2))"

definition export_to_discord :: "env \<Rightarrow> Playlist \<Rightarrow> Track list \<Rightarrow> worker \<Rightarrow> (exn + unit) \<times> worker" where
  "export_to_discord ev playlist tracks w =
     (if webhook_url w = [] then (Inl (ValueError (u ''Discord webhook URL is required'')), w)
      else case post_loop ev (discord_messages (py_repr ev) playlist tracks) w of
             (Inl e, w1) \<Rightarrow> (Inl e, w1)
           | (Inr True, w1) \<Rightarrow> (Inr (), w1)
           | (Inr False, w1) \<Rightarrow>
               (Inr (), log_all [Info_exported_discord (playlist_name playlist)] w1))"

section \<open>Orchestration\<close>

text \<open>The dispatch on the format inside the loop of \<open>run\<close>; only a file export appends a path.\<close>

definition export_playlist :: "env \<Rightarrow> Playlist \<Rightarrow> Track list \<Rightarrow> worker \<Rightarrow> (exn + unit) \<times> worker" where
  "export_playlist ev playlist tracks w =
     (let keep = (\<lambda>r. case r of
                    (Inl e, w1) \<Rightarrow> (Inl e, w1)
                  | (Inr filepath, w1) \<Rightarrow>
                      (Inr (), w1\<lparr>exported_files := exported_files w1 @ [filepath]\<rparr>))
      in case export_format w of
           DISCORD \<Rightarrow> export_to_discord ev playlist tracks w
         | CSV \<Rightarrow> keep (export_to_csv ev playlist tracks w)
         | JSON \<Rightarrow> keep (export_to_json ev playlist tracks w)
         | TXT \<Rightarrow> keep (export_to_txt ev playlist tracks w)
         | MARKDOWN \<Rightarrow> keep (export_to_markdown ev playlist tracks w))"

text \<open>
  The loop \<open>for i, playlist in enumerate(self.playlists)\<close>. The result tells whether the
  loop was left by the \<open>return\<close> of the cancellation test.
\<close>

fun run_loop :: "env \<Rightarrow> nat \<Rightarrow> nat \<Rightarrow> Playlist list \<Rightarrow> worker \<Rightarrow> (exn + bool) \<times> worker" where
  "run_loop ev tot i [] w = (Inr False, w)"
| "run_loop ev tot i (playlist # rest) w =
     (case poll_cancelled w of
        (True, w1) \<Rightarrow> (Inr True, log_all [Info_export_cancelled] w1)
      | (False, w1) \<Rightarrow>
          (let w2 = emit (Progress i tot (u ''Exporting: '' @ playlist_name playlist)) w1
           in case get_playlist_tracks ev (playlist_id playlist) w2 of
                (Inl e, w3) \<Rightarrow> (Inl e, w3)
              | (Inr tracks, w3) \<Rightarrow>
                  if tracks = []
                  then run_loop ev tot (Suc i) rest
                         (log_all [Warning_no_tracks_found (playlist_name playlist)] w3)
                  else (case export_playlist ev playlist tracks w3 of
                          (Inl e, w4) \<Rightarrow> (Inl e, w4)
                        | (Inr _, w4) \<Rightarrow> run_loop ev tot (Suc i) rest w4)))"

text \<open>
  How \<open>run\<close> ends: by the \<open>return\<close> of the cancellation test (nothing is emitted), after
  the last playlist (the two final signals), or in the \<open>except\<close> clause (the error signal).
\<close>

datatype outcome = Cancelled | Completed | Failed exn

definition run :: "env \<Rightarrow> worker \<Rightarrow> outcome \<times> worker" where
  "run ev w =
     (case run_loop ev (length (playlists w)) 0 (playlists w) w of
        (Inr True, w1) \<Rightarrow> (Cancelled, w1)
      | (Inr False, w1) \<Rightarrow>
          (Completed, emit (Finished (exported_files w1)) (emit Progress_done w1))
      | (Inl e, w1) \<Rightarrow> (Failed e, emit (Error e) (log_all [Exception_export_error e] w1)))"

text \<open>The worker as its constructor leaves it.\<close>

definition new_worker :: "ExportFormat \<Rightarrow> Playlist list \<Rightarrow> pystr \<Rightarrow> pystr \<Rightarrow> nat option \<Rightarrow> worker" where
  "new_worker fmt pls dir hook cancel =
     \<lparr>export_format = fmt, playlists = pls, output_dir = dir, webhook_url = hook,
      polls_until_cancel = cancel, exported_files = [], emitted = [], logged = [],
      files = [], posts = [], clock_reads = 0\<rparr>"

section \<open>What the specification expects of normalisation\<close>

fun is_str :: "json \<Rightarrow> bool" where
  "is_str (JStr s) = True"
| "is_str _ = False"


text \<open>
  The shapes of a raw track record that its processing can read. A field that is missing,
  null or otherwise falsy is always readable. Beyond that, \<open>artists\<close> has to be a list of
  objects whose \<open>name\<close>, if any, is a string; \<open>album\<close> has to be an object; and
  \<open>external_urls\<close> has to be an object (a list or a string is read as well, as long as
  it does not hold "spotify"). Nothing is asked of \<open>name\<close>, \<open>duration_ms\<close> and \<open>id\<close>.
\<close>

definition name_ok :: "(pystr \<times> json) list \<Rightarrow> bool" where
  "name_ok kvs = (case map_of kvs (u ''name'') of None \<Rightarrow> True | Some v \<Rightarrow> is_str v)"

fun wf_artist :: "json \<Rightarrow> bool" where
  "wf_artist (JDict kvs) = name_ok kvs"
| "wf_artist _ = False"

definition artists_fine :: "json option \<Rightarrow> bool" where
  "artists_fine v =
     (case v of None \<Rightarrow> True
      | Some (JList as) \<Rightarrow> list_all wf_artist as
      | Some a \<Rightarrow> \<not> truthy a)"

definition album_fine :: "json option \<Rightarrow> bool" where
  "album_fine v =
     (case v of None \<Rightarrow> True
      | Some (JDict akvs) \<Rightarrow> True
      | Some a \<Rightarrow> \<not> truthy a)"

definition urls_fine :: "json option \<Rightarrow> bool" where
  "urls_fine v =
     (case v of None \<Rightarrow> True
      | Some (JDict ukvs) \<Rightarrow> True
      | Some (JList xs) \<Rightarrow> JStr (u ''spotify'') \<notin> set xs
      | Some (JStr s) \<Rightarrow> \<not> contains_str (u ''spotify'') s
      | Some a \<Rightarrow> \<not> truthy a)"

definition readable :: "(pystr \<times> json) list \<Rightarrow> bool" where
  "readable kvs \<longleftrightarrow>
     artists_fine (map_of kvs (u ''artists'')) \<and>
     album_fine (map_of kvs (u ''album'')) \<and>
     urls_fine (map_of kvs (u ''external_urls''))"

text \<open>
  The track records for which no Track is expected: whatever is not a mapping (absent and
  null records among them), the empty mapping, and a mapping that cannot be read. The id
  plays no part.
\<close>

fun skipped :: "json \<Rightarrow> bool" where
  "skipped (JDict kvs) = (kvs = [] \<or> \<not> readable kvs)"
| "skipped _ = True"

fun fields_of :: "json \<Rightarrow> (pystr \<times> json) list" where
  "fields_of (JDict kvs) = kvs"
| "fields_of _ = []"

text \<open>
  The Track expected for a record, field by field: the value found, or the documented
  default. The external URL is the value under \<open>spotify\<close> of an \<open>external_urls\<close> object;
  without it the URL is built from a truthy id, and is the service root otherwise.
\<close>

fun artist_name :: "json \<Rightarrow> pystr" where
  "artist_name (JDict kvs) =
     (case map_of kvs (u ''name'') of Some (JStr s) \<Rightarrow> s | _ \<Rightarrow> u ''Unknown Artist'')"
| "artist_name _ = u ''Unknown Artist''"

definition expected_artist :: "json option \<Rightarrow> pystr" where
  "expected_artist v = (case v of
                 Some (JList (a # as)) \<Rightarrow> join_strs (u '', '') (map artist_name (a # as))
               | _ \<Rightarrow> u ''Unknown Artist'')"

definition expected_album :: "json option \<Rightarrow> json" where
  "expected_album v = (case v of
                Some (JDict akvs) \<Rightarrow>
                  (case map_of akvs (u ''name'') of None \<Rightarrow> JStr (u ''Unknown Album'') | Some v \<Rightarrow> v)
              | _ \<Rightarrow> JStr (u ''Unknown Album''))"

definition external_url :: "json option \<Rightarrow> json option" where
  "external_url urls = (case urls of Some (JDict ukvs) \<Rightarrow> map_of ukvs (u ''spotify'') | _ \<Rightarrow> None)"

definition expected_url :: "(json \<Rightarrow> pystr) \<Rightarrow> json option \<Rightarrow> json option \<Rightarrow> json" where
  "expected_url rp urls ident =
     (case external_url urls of
        Some v \<Rightarrow> v
      | None \<Rightarrow> (case ident of
                   None \<Rightarrow> JStr (u ''https://open.spotify.com'')
                 | Some i \<Rightarrow> if truthy i
                            then JStr (u ''https://open.spotify.com/track/'' @ py_str rp i)
                            else JStr (u ''https://open.spotify.com'')))"

definition expected_track :: "(json \<Rightarrow> pystr) \<Rightarrow> (pystr \<times> json) list \<Rightarrow> Track" where
  "expected_track rp kvs =
    \<lparr>name = (case map_of kvs (u ''name'') of None \<Rightarrow> JStr (u ''Unknown Track'') | Some v \<Rightarrow> v),
     artist = expected_artist (map_of kvs (u ''artists'')),
     album = expected_album (map_of kvs (u ''album'')),
     duration_ms = (case map_of kvs (u ''duration_ms'') of None \<Rightarrow> JInt 0 | Some v \<Rightarrow> v),
     url = expected_url rp (map_of kvs (u ''external_urls'')) (map_of kvs (u ''id''))\<rparr>"



text \<open>The value of \<open>item.get('track')\<close> for an item that is a mapping.\<close>

definition item_track :: "(pystr \<times> json) list \<Rightarrow> json" where
  "item_track item = (case map_of item (u ''track'') of None \<Rightarrow> JNull | Some v \<Rightarrow> v)"

section \<open>Example surroundings\<close>

text \<open>
  Concrete collaborators for the examples below: a clock that stands still (two exports
  within the same second), a file system that accepts every file, a webhook that answers
  every post alike, and a listing given per playlist id.
\<close>

definition example_time :: datetime where
  "example_time = \<lparr>year = 2024, month = 1, day = 2, hour = 3, minute = 4, second = 5,
     microsecond = 0\<rparr>"

definition example_env :: "(pystr \<Rightarrow> fetch) \<Rightarrow> response \<Rightarrow> env" where
  "example_env listing resp =
     \<lparr>playlist_tracks = listing, post_response = (\<lambda>k c. resp), now = (\<lambda>k. example_time),
      open_fails = (\<lambda>p. None), py_repr = plain_repr\<rparr>"

definition example_item :: json where
  "example_item = JDict [(u ''track'', JDict [(u ''name'', JStr (u ''x''))])]"

definition example_track :: Track where
  "example_track = \<lparr>name = JStr (u ''x''), artist = u ''Unknown Artist'',
     album = JStr (u ''Unknown Album''), duration_ms = JInt 0,
     url = JStr (u ''https://open.spotify.com'')\<rparr>"

definition example_playlist :: "pystr \<Rightarrow> pystr \<Rightarrow> Playlist" where
  "example_playlist i n =
     \<lparr>playlist_id = i, playlist_name = n, track_count = 1, owner = u ''me'', description = []\<rparr>"

text \<open>The datetimes that \<open>datetime.now\<close> can return.\<close>

definition valid_datetime :: "datetime \<Rightarrow> bool" where
  "valid_datetime d \<longleftrightarrow> 1 \<le> year d \<and> year d \<le> 9999 \<and> 1 \<le> month d \<and> month d \<le> 12
     \<and> 1 \<le> day d \<and> day d \<le> 31 \<and> hour d \<le> 23 \<and> minute d \<le> 59 \<and> second d \<le> 59
     \<and> microsecond d \<le> 999999"

text \<open>The number that a string of decimal digits denotes (used to tell timestamps apart).\<close>

definition nat_of_digits :: "pystr \<Rightarrow> nat" where
  "nat_of_digits s = foldl (\<lambda>a c. 10 * a + (c - 48)) 0 s"

text \<open>The lines of the numbered track list, one per track, in order.\<close>

definition track_lines :: "(json \<Rightarrow> pystr) \<Rightarrow> Track list \<Rightarrow> pystr list" where
  "track_lines rp tracks = map (track_line rp) (enumerate1 tracks)"


section \<open>What a run may change\<close>

fun is_progress :: "signal \<Rightarrow> bool" where
  "is_progress (Progress i n l) = True"
| "is_progress _ = False"

text \<open>
  \<open>grows w w'\<close>: from \<open>w\<close> to \<open>w'\<close> the configuration is unchanged, the signals added
  are progress signals only, and every file added is listed in \<open>exported_files\<close> in the
  same order; with the webhook format no file is added.
\<close>

definition grows :: "worker \<Rightarrow> worker \<Rightarrow> bool" where
  "grows w w' \<longleftrightarrow>
     export_format w' = export_format w \<and> playlists w' = playlists w
     \<and> output_dir w' = output_dir w \<and> webhook_url w' = webhook_url w
     \<and> (\<exists>ps. emitted w' = emitted w @ ps \<and> list_all is_progress ps)
     \<and> (\<exists>new. files w' = files w @ new
            \<and> exported_files w' = exported_files w @ map fst new
            \<and> (export_format w = DISCORD \<longrightarrow> new = []))"

text \<open>
  \<open>wrote w r w'\<close>: what a file export does to the worker: on success exactly the returned
  path is written, on failure nothing; \<open>exported_files\<close> is left to the caller.
\<close>

definition wrote :: "worker \<Rightarrow> exn + path \<Rightarrow> worker \<Rightarrow> bool" where
  "wrote w r w' \<longleftrightarrow>
     export_format w' = export_format w \<and> playlists w' = playlists w
     \<and> output_dir w' = output_dir w \<and> webhook_url w' = webhook_url w
     \<and> emitted w' = emitted w \<and> exported_files w' = exported_files w
     \<and> (case r of Inl e \<Rightarrow> files w' = files w
                  | Inr fp \<Rightarrow> (\<exists>c. files w' = files w @ [(fp, c)]))"

text \<open>
  A listing whose first page holds one item and whose second page cannot be fetched, for
  the playlist with id "a"; every other playlist has a single page with one item.
\<close>

definition failing_listing :: "pystr \<Rightarrow> fetch" where
  "failing_listing pid =
     (if pid = u ''a'' then Page [example_item] (Fetch_raises (RemoteError (u ''boom'')))
      else Last_page [example_item])"

definition single_page_listing :: "pystr \<Rightarrow> fetch" where
  "single_page_listing pid = Last_page [example_item]"

definition three_playlists :: "Playlist list" where
  "three_playlists = [example_playlist (u ''a'') (u ''A''), example_playlist (u ''b'') (u ''B''),
     example_playlist (u ''c'') (u ''C'')]"

section \<open>The trace of webhook posts\<close>

text \<open>
  The outcomes of the posts a worker has made, in order; a post succeeds when the status
  is 200 or 204; \<open>post_exn\<close> is the exception that \<open>export_to_discord\<close> lets through
  for an outcome that is no success.
\<close>

definition post_results :: "env \<Rightarrow> worker \<Rightarrow> response list" where
  "post_results ev w =
     map (\<lambda>km. post_response ev (fst km) (snd km)) (zip [0..<length (posts w)] (posts w))"

definition success :: "response \<Rightarrow> bool" where
  "success r \<longleftrightarrow> r = Status 200 \<or> r = Status 204"

fun post_exn :: "response \<Rightarrow> exn" where
  "post_exn (Status code) = Exception (u ''Failed to send to Discord: '' @ str_of_nat code)"
| "post_exn (Post_raises e) = e"

text \<open>
  \<open>posted ev r w\<close>: either every post so far succeeded, or every post but the last one
  did and the failure of the last one is the exception \<open>r\<close> carries.
\<close>

definition posted :: "env \<Rightarrow> exn + 'a \<Rightarrow> worker \<Rightarrow> bool" where
  "posted ev r w \<longleftrightarrow>
     list_all success (post_results ev w)
     \<or> (\<exists>rs x. post_results ev w = rs @ [x] \<and> list_all success rs \<and> \<not> success x
           \<and> r = Inl (post_exn x))"

text \<open>The first playlist of an example run.\<close>

definition playlist_A :: Playlist where
  "playlist_A = example_playlist (u ''a'') (u ''A'')"

section \<open>Properties\<close>

subsection \<open>Normalisation\<close>

lemma bind_exn_Inr [simp]: "bind_exn (Inr x) f = f x"
  by (simp add: bind_exn_def)

lemma bind_exn_Inl [simp]: "bind_exn (Inl e) f = Inl e"
  by (simp add: bind_exn_def)

lemma artist_name_list_wf:
  "list_all wf_artist as \<Longrightarrow> artist_name_list as = Inr (map (\<lambda>a. JStr (artist_name a)) as)"
proof (induction as)
  case Nil
  then show ?case by simp
next
  case (Cons a as)
  then obtain kvs where a: "a = JDict kvs" and ok: "name_ok kvs"
    by (cases a) auto
  from ok have "py_get a (u ''name'') (JStr (u ''Unknown Artist'')) = Inr (JStr (artist_name a))"
    unfolding a name_ok_def by (auto split: option.splits json.splits)
  with Cons show ?case by simp
qed

lemma strs_of_JStr: "strs_of (map (\<lambda>a. JStr (f a)) as) = Inr (map f as)"
  by (induction as) auto

lemma strs_of_Inr_str: "strs_of (v # vs) = Inr ss \<Longrightarrow> is_str v \<and> (\<exists>ss'. strs_of vs = Inr ss')"
  by (cases v) (auto split: sum.splits)

text \<open>If the names of the artists can be read and joined, every artist is well formed.\<close>

lemma artist_names_read:
  "artist_name_list as = Inr ns \<Longrightarrow> strs_of ns = Inr ss \<Longrightarrow> list_all wf_artist as"
proof (induction as arbitrary: ns ss)
  case Nil
  then show ?case by simp
next
  case (Cons a as)
  from Cons.prems(1) obtain kvs where a: "a = JDict kvs"
    by (cases a) simp_all
  let ?n = "case map_of kvs (u ''name'') of None \<Rightarrow> JStr (u ''Unknown Artist'') | Some v \<Rightarrow> v"
  from Cons.prems(1) a obtain ns' where ns': "artist_name_list as = Inr ns'" and ns: "ns = ?n # ns'"
    by (cases "artist_name_list as") auto
  from Cons.prems(2) ns have s: "is_str ?n" and "\<exists>ss'. strs_of ns' = Inr ss'"
    using strs_of_Inr_str [of ?n ns' ss] by simp_all
  then obtain ss' where "strs_of ns' = Inr ss'" by blast
  from Cons.IH [OF ns' this] have "list_all wf_artist as" .
  moreover from s have "name_ok kvs" by (auto simp: name_ok_def split: option.splits)
  ultimately show ?case using a by simp
qed

lemma artist_names_of_list:
  "artist_names_of (JList as) =
     (if as = [] then Inr (u ''Unknown Artist'')
      else bind_exn (artist_name_list as) (\<lambda>ns. py_join (u '', '') ns))"
  by (simp add: artist_names_of_def)

lemma artist_names_of_fine:
  assumes "artists_fine v"
  shows "artist_names_of (case v of None \<Rightarrow> JList [] | Some x \<Rightarrow> x) = Inr (expected_artist v)"
proof (cases v)
  case None
  then show ?thesis by (simp add: artist_names_of_def expected_artist_def)
next
  case (Some x)
  show ?thesis
  proof (cases "\<exists>as. x = JList as")
    case True
    then obtain as where x: "x = JList as" by blast
    with assms Some have wf: "list_all wf_artist as" by (simp add: artists_fine_def)
    show ?thesis
    proof (cases as)
      case Nil
      with Some x show ?thesis by (simp add: artist_names_of_def expected_artist_def)
    next
      case (Cons a as')
      then have ne: "as \<noteq> []" by simp
      have "artist_names_of (JList as) = Inr (join_strs (u '', '') (map artist_name as))"
        using ne by (simp add: artist_names_of_list artist_name_list_wf [OF wf] py_join_def
            strs_of_JStr)
      with Some x Cons show ?thesis by (simp add: expected_artist_def)
    qed
  next
    case False
    with assms Some have f: "\<not> truthy x" by (cases x) (simp_all add: artists_fine_def)
    from False have "expected_artist (Some x) = u ''Unknown Artist''"
      by (cases x) (simp_all add: expected_artist_def)
    with f Some show ?thesis by (simp add: artist_names_of_def)
  qed
qed

lemma artist_names_of_raises:
  assumes "\<not> artists_fine v"
  shows "isl (artist_names_of (case v of None \<Rightarrow> JList [] | Some x \<Rightarrow> x))"
proof (cases v)
  case None
  with assms show ?thesis by (simp add: artists_fine_def)
next
  case (Some x)
  show ?thesis
  proof (cases x)
    case JNull
    with assms Some show ?thesis by (simp add: artists_fine_def)
  next
    case (JBool b)
    with assms Some show ?thesis by (simp add: artists_fine_def artist_names_of_def)
  next
    case (JInt i)
    with assms Some show ?thesis by (simp add: artists_fine_def artist_names_of_def)
  next
    case (JFloat m e)
    with assms Some show ?thesis by (simp add: artists_fine_def artist_names_of_def)
  next
    case (JStr s)
    with assms Some obtain c cs where "s = c # cs"
      by (cases s) (simp_all add: artists_fine_def)
    with JStr Some show ?thesis by (simp add: artist_names_of_def)
  next
    case (JDict kvs)
    with assms Some have "kvs \<noteq> []" by (simp add: artists_fine_def)
    then have "remdups (map fst kvs) \<noteq> []" by simp
    then obtain k ks where "remdups (map fst kvs) = k # ks" by (cases "remdups (map fst kvs)") auto
    with JDict Some \<open>kvs \<noteq> []\<close> show ?thesis by (simp add: artist_names_of_def)
  next
    case (JList as)
    with assms Some have nwf: "\<not> list_all wf_artist as" by (simp add: artists_fine_def)
    then have ne: "as \<noteq> []" by auto
    show ?thesis
    proof (cases "artist_name_list as")
      case (Inl e)
      with JList Some ne show ?thesis by (simp add: artist_names_of_list)
    next
      case (Inr ns)
      show ?thesis
      proof (cases "strs_of ns")
        case (Inl e)
        with Inr JList Some ne show ?thesis by (simp add: artist_names_of_list py_join_def)
      next
        case inr: (Inr ss)
        from artist_names_read [OF Inr inr] nwf show ?thesis by simp
      qed
    qed
  qed
qed

lemma album_name_of_fine:
  assumes "album_fine v"
  shows "album_name_of (case v of None \<Rightarrow> JDict [] | Some x \<Rightarrow> x) = Inr (expected_album v)"
proof (cases v)
  case None
  then show ?thesis by (simp add: album_name_of_def expected_album_def)
next
  case (Some x)
  show ?thesis
  proof (cases "\<exists>akvs. x = JDict akvs")
    case True
    then obtain akvs where "x = JDict akvs" by blast
    with Some show ?thesis
      by (cases akvs) (auto simp: album_name_of_def expected_album_def split: option.splits)
  next
    case False
    with assms Some have f: "\<not> truthy x" by (cases x) (simp_all add: album_fine_def)
    from False have "expected_album (Some x) = JStr (u ''Unknown Album'')"
      by (cases x) (simp_all add: expected_album_def)
    with f Some show ?thesis by (simp add: album_name_of_def)
  qed
qed

lemma album_name_of_raises:
  assumes "\<not> album_fine v"
  shows "isl (album_name_of (case v of None \<Rightarrow> JDict [] | Some x \<Rightarrow> x))"
proof (cases v)
  case None
  with assms show ?thesis by (simp add: album_fine_def)
next
  case (Some x)
  with assms show ?thesis by (cases x) (simp_all add: album_fine_def album_name_of_def)
qed

lemma map_of_in_fst: "(k \<in> fst ` set kvs) = (map_of kvs k \<noteq> None)"
  by (simp add: map_of_eq_None_iff)

lemma track_url_of_no_external:
  assumes "\<not> truthy e \<or> py_in (u ''spotify'') e = Inr False"
  shows "track_url_of rp (JDict kvs) n e
     = Inr (expected_url rp None (map_of kvs (u ''id'')),
          if (case map_of kvs (u ''id'') of None \<Rightarrow> False | Some i \<Rightarrow> truthy i) then []
          else [Warning_no_spotify_url n])"
proof -
  from assms have "(if truthy e then py_in (u ''spotify'') e else Inr False) = Inr False"
    by auto
  then show ?thesis
    by (cases "map_of kvs (u ''id'')")
       (simp_all add: track_url_of_def expected_url_def external_url_def)
qed

lemma expected_url_no_external:
  "external_url v = None \<Longrightarrow> expected_url rp v i = expected_url rp None i"
  by (simp add: expected_url_def external_url_def)

lemma track_url_of_fine:
  assumes "urls_fine v"
  shows "\<exists>logs. track_url_of rp (JDict kvs) n (case v of None \<Rightarrow> JDict [] | Some x \<Rightarrow> x)
           = Inr (expected_url rp v (map_of kvs (u ''id'')), logs)"
proof (cases v)
  case None
  then show ?thesis using track_url_of_no_external [of "JDict []" rp kvs n] by simp
next
  case (Some x)
  show ?thesis
  proof (cases x)
    case (JDict ukvs)
    show ?thesis
    proof (cases "map_of ukvs (u ''spotify'')")
      case None
      then have "u ''spotify'' \<notin> fst ` set ukvs" by (simp add: map_of_in_fst)
      then have "py_in (u ''spotify'') x = Inr False" using JDict by simp
      moreover from None JDict have "external_url (Some x) = None" by (simp add: external_url_def)
      ultimately show ?thesis using Some
        track_url_of_no_external [of x rp kvs n] expected_url_no_external [of "Some x" rp]
        by simp
    next
      case (Some w)
      then have "u ''spotify'' \<in> fst ` set ukvs" by (simp add: map_of_in_fst)
      moreover from Some have "ukvs \<noteq> []" by auto
      ultimately show ?thesis using Some \<open>v = Some x\<close> JDict
        by (simp add: track_url_of_def expected_url_def external_url_def)
    qed
  next
    case (JList xs)
    with assms Some have "py_in (u ''spotify'') x = Inr False" by (simp add: urls_fine_def)
    moreover from JList have "external_url (Some x) = None" by (simp add: external_url_def)
    ultimately show ?thesis using Some
      track_url_of_no_external [of x rp kvs n] expected_url_no_external [of "Some x" rp]
      by simp
  next
    case (JStr s)
    with assms Some have "py_in (u ''spotify'') x = Inr False" by (simp add: urls_fine_def)
    moreover from JStr have "external_url (Some x) = None" by (simp add: external_url_def)
    ultimately show ?thesis using Some
      track_url_of_no_external [of x rp kvs n] expected_url_no_external [of "Some x" rp]
      by simp
  next
    case JNull
    then have "\<not> truthy x" and "external_url (Some x) = None" by (simp_all add: external_url_def)
    then show ?thesis using Some
      track_url_of_no_external [of x rp kvs n] expected_url_no_external [of "Some x" rp]
      by simp
  next
    case (JBool b)
    with assms Some have "\<not> truthy x" by (simp add: urls_fine_def)
    moreover from JBool have "external_url (Some x) = None" by (simp add: external_url_def)
    ultimately show ?thesis using Some
      track_url_of_no_external [of x rp kvs n] expected_url_no_external [of "Some x" rp]
      by simp
  next
    case (JInt i)
    with assms Some have "\<not> truthy x" by (simp add: urls_fine_def)
    moreover from JInt have "external_url (Some x) = None" by (simp add: external_url_def)
    ultimately show ?thesis using Some
      track_url_of_no_external [of x rp kvs n] expected_url_no_external [of "Some x" rp]
      by simp
  next
    case (JFloat m e)
    with assms Some have "\<not> truthy x" by (simp add: urls_fine_def)
    moreover from JFloat have "external_url (Some x) = None" by (simp add: external_url_def)
    ultimately show ?thesis using Some
      track_url_of_no_external [of x rp kvs n] expected_url_no_external [of "Some x" rp]
      by simp
  qed
qed

lemma track_url_of_raises:
  assumes "\<not> urls_fine v"
  shows "isl (track_url_of rp (JDict kvs) n (case v of None \<Rightarrow> JDict [] | Some x \<Rightarrow> x))"
proof (cases v)
  case None
  with assms show ?thesis by (simp add: urls_fine_def)
next
  case (Some x)
  show ?thesis
  proof (cases x)
    case (JList xs)
    with assms Some have "JStr (u ''spotify'') \<in> set xs" by (simp add: urls_fine_def)
    moreover then have "xs \<noteq> []" by auto
    ultimately show ?thesis using Some JList by (simp add: track_url_of_def)
  next
    case (JStr s)
    with assms Some have c: "contains_str (u ''spotify'') s" by (simp add: urls_fine_def)
    then have "s \<noteq> []" by (auto simp: u_def)
    with c show ?thesis using Some JStr by (simp add: track_url_of_def)
  qed (use assms Some in \<open>simp_all add: urls_fine_def track_url_of_def\<close>)
qed

text \<open>The try block on a mapping: the expected Track if it can be read, an exception if not.\<close>

lemma process_track_readable:
  assumes "readable kvs"
  shows "\<exists>logs. process_track rp (JDict kvs) = Inr (expected_track rp kvs, logs)"
proof -
  from assms have a: "artists_fine (map_of kvs (u ''artists''))"
    and b: "album_fine (map_of kvs (u ''album''))"
    and c: "urls_fine (map_of kvs (u ''external_urls''))"
    by (simp_all add: readable_def)
  obtain logs where l: "track_url_of rp (JDict kvs)
      (case map_of kvs (u ''name'') of None \<Rightarrow> JStr (u ''Unknown Track'') | Some v \<Rightarrow> v)
      (case map_of kvs (u ''external_urls'') of None \<Rightarrow> JDict [] | Some x \<Rightarrow> x)
           = Inr (expected_url rp (map_of kvs (u ''external_urls'')) (map_of kvs (u ''id'')), logs)"
    using track_url_of_fine [OF c] by blast
  show ?thesis
    by (simp add: process_track_def artist_names_of_fine [OF a] album_name_of_fine [OF b] l
        expected_track_def)
qed

lemma process_track_unreadable:
  assumes "\<not> readable kvs"
  shows "isl (process_track rp (JDict kvs))"
proof (cases "artists_fine (map_of kvs (u ''artists''))")
  case False
  from artist_names_of_raises [OF this] obtain e where
    "artist_names_of (case map_of kvs (u ''artists'') of None \<Rightarrow> JList [] | Some x \<Rightarrow> x) = Inl e"
    by (auto simp: isl_def)
  then show ?thesis by (simp add: process_track_def)
next
  case a: True
  show ?thesis
  proof (cases "album_fine (map_of kvs (u ''album''))")
    case False
    from album_name_of_raises [OF this] obtain e where
      "album_name_of (case map_of kvs (u ''album'') of None \<Rightarrow> JDict [] | Some x \<Rightarrow> x) = Inl e"
      by (auto simp: isl_def)
    then show ?thesis by (simp add: process_track_def artist_names_of_fine [OF a])
  next
    case b: True
    with a assms have "\<not> urls_fine (map_of kvs (u ''external_urls''))" by (simp add: readable_def)
    from track_url_of_raises [OF this, of rp kvs
        "case map_of kvs (u ''name'') of None \<Rightarrow> JStr (u ''Unknown Track'') | Some v \<Rightarrow> v"]
    obtain e where
      "track_url_of rp (JDict kvs)
        (case map_of kvs (u ''name'') of None \<Rightarrow> JStr (u ''Unknown Track'') | Some v \<Rightarrow> v)
        (case map_of kvs (u ''external_urls'') of None \<Rightarrow> JDict [] | Some x \<Rightarrow> x) = Inl e"
      by (auto simp: isl_def)
    then show ?thesis
      by (simp add: process_track_def artist_names_of_fine [OF a] album_name_of_fine [OF b])
  qed
qed

lemma process_track_not_dict:
  "\<not> (\<exists>kvs. track = JDict kvs) \<Longrightarrow> process_track rp track = Inl AttributeError"
  by (cases track) (simp_all add: process_track_def)

lemma process_item_dict:
  "process_item rp (JDict item) =
     (if \<not> truthy (item_track item) then Inr (None, [Warning_skipping_item])
      else (case process_track rp (item_track item) of
              Inl KeyError \<Rightarrow> Inr (None, [Warning_missing_key])
            | Inl e \<Rightarrow> Inr (None, [Warning_failed_to_process e])
            | Inr (t, logs) \<Rightarrow> Inr (Some t, logs)))"
  by (simp add: process_item_def item_track_def)

lemma process_item_raising:
  "truthy (item_track item) \<Longrightarrow> isl (process_track rp (item_track item)) \<Longrightarrow>
   \<exists>logs. process_item rp (JDict item) = Inr (None, logs)"
  by (cases "process_track rp (item_track item)")
     (auto simp: process_item_dict split: exn.splits)

text \<open>The whole normaliser on an item that is a mapping.\<close>

lemma process_item_result:
  "\<exists>logs. process_item rp (JDict item)
     = Inr (if skipped (item_track item) then None
            else Some (expected_track rp (fields_of (item_track item))), logs)"
proof (cases "truthy (item_track item)")
  case False
  then have "skipped (item_track item)" by (cases "item_track item") simp_all
  with False show ?thesis by (simp add: process_item_dict)
next
  case True
  show ?thesis
  proof (cases "\<exists>kvs. item_track item = JDict kvs")
    case False
    then have "process_track rp (item_track item) = Inl AttributeError"
      by (rule process_track_not_dict)
    moreover from False have "skipped (item_track item)" by (cases "item_track item") simp_all
    ultimately show ?thesis using True by (simp add: process_item_dict)
  next
    case dict: True
    then obtain kvs where t: "item_track item = JDict kvs" by blast
    with True have ne: "kvs \<noteq> []" by simp
    show ?thesis
    proof (cases "readable kvs")
      case True
      from process_track_readable [OF this] obtain logs where
        "process_track rp (JDict kvs) = Inr (expected_track rp kvs, logs)" by blast
      with t ne True show ?thesis by (simp add: process_item_dict)
    next
      case False
      from process_track_unreadable [OF this] have "isl (process_track rp (item_track item))"
        by (simp add: t)
      from process_item_raising [OF True this] False t show ?thesis by simp
    qed
  qed
qed





text \<open>
  C9, as amended. For every raw item that is a mapping, normalisation does not raise and
  yields one Track or none. It yields none exactly when the track record is absent, null,
  not a mapping or an empty mapping, or cannot be read because of its \<open>artists\<close>,
  \<open>album\<close> or \<open>external_urls\<close>; otherwise it yields the expected Track. The id is no
  reason to skip: a record that is not skipped and whose id is missing, null or otherwise
  falsy yields a Track whose URL is the external spotify URL or else the service root.
\<close>

theorem C9_skip_condition:
  "(\<exists>logs. process_item rp (JDict item)
       = Inr (if skipped (item_track item) then None
              else Some (expected_track rp (fields_of (item_track item))), logs))
   \<and> (\<not> skipped (item_track item)
       \<and> (case map_of (fields_of (item_track item)) (u ''id'') of
            None \<Rightarrow> True | Some i \<Rightarrow> \<not> truthy i)
      \<longrightarrow> (\<exists>t logs. process_item rp (JDict item) = Inr (Some t, logs)
            \<and> url t = (case external_url (map_of (fields_of (item_track item))
                                            (u ''external_urls'')) of
                          Some v \<Rightarrow> v | None \<Rightarrow> JStr (u ''https://open.spotify.com''))))"
proof (intro conjI impI)
  show "\<exists>logs. process_item rp (JDict item)
       = Inr (if skipped (item_track item) then None
              else Some (expected_track rp (fields_of (item_track item))), logs)"
    by (rule process_item_result)
next
  let ?kvs = "fields_of (item_track item)"
  assume h: "\<not> skipped (item_track item)
       \<and> (case map_of ?kvs (u ''id'') of None \<Rightarrow> True | Some i \<Rightarrow> \<not> truthy i)"
  with process_item_result [of rp item] obtain logs where
    r: "process_item rp (JDict item) = Inr (Some (expected_track rp ?kvs), logs)"
    by auto
  from h have "url (expected_track rp ?kvs) =
      (case external_url (map_of ?kvs (u ''external_urls'')) of
         Some v \<Rightarrow> v | None \<Rightarrow> JStr (u ''https://open.spotify.com''))"
    by (auto simp: expected_track_def expected_url_def split: option.splits)
  with r show "\<exists>t logs. process_item rp (JDict item) = Inr (Some t, logs)
            \<and> url t = (case external_url (map_of ?kvs (u ''external_urls'')) of
                          Some v \<Rightarrow> v | None \<Rightarrow> JStr (u ''https://open.spotify.com''))"
    by blast
qed

theorem C9_skip_condition_witness:
  "\<not> skipped (item_track [(u ''track'', JDict [(u ''name'', JStr (u ''x'')), (u ''id'', JNull)])])
   \<and> map_of (fields_of (item_track
         [(u ''track'', JDict [(u ''name'', JStr (u ''x'')), (u ''id'', JNull)])])) (u ''id'')
       = Some JNull
   \<and> (\<exists>t logs. process_item plain_repr
          (JDict [(u ''track'', JDict [(u ''name'', JStr (u ''x'')), (u ''id'', JNull)])])
          = Inr (Some t, logs) \<and> url t = JStr (u ''https://open.spotify.com''))"
proof -
  let ?kvs = "[(u ''name'', JStr (u ''x'')), (u ''id'', JNull)]"
  let ?item = "[(u ''track'', JDict ?kvs)]"
  have a: "item_track ?item = JDict ?kvs"
    by (simp add: item_track_def)
  have c: "readable ?kvs"
    by (simp add: readable_def artists_fine_def album_fine_def urls_fine_def u_def)
  have d: "map_of ?kvs (u ''id'') = Some JNull"
    by (simp add: u_def)
  have e: "external_url (map_of ?kvs (u ''external_urls'')) = None"
    by (simp add: external_url_def u_def)
  from C9_skip_condition [of plain_repr ?item] a c d e show ?thesis by simp
qed

text \<open>
  C9 as stated fails: a present record whose id cannot be recovered (no external URL, and
  the id missing, null or empty) is not skipped; it yields a Track with the service root
  as URL.
\<close>

theorem C9_no_id_counterexample:
  "process_item plain_repr (JDict [(u ''track'', JDict [(u ''name'', JStr (u ''x''))])])
       = Inr (Some \<lparr>name = JStr (u ''x''), artist = u ''Unknown Artist'',
                    album = JStr (u ''Unknown Album''), duration_ms = JInt 0,
                    url = JStr (u ''https://open.spotify.com'')\<rparr>,
              [Warning_no_spotify_url (JStr (u ''x''))])
   \<and> process_item plain_repr
        (JDict [(u ''track'', JDict [(u ''name'', JStr (u ''x'')), (u ''id'', JNull)])])
       = Inr (Some \<lparr>name = JStr (u ''x''), artist = u ''Unknown Artist'',
                    album = JStr (u ''Unknown Album''), duration_ms = JInt 0,
                    url = JStr (u ''https://open.spotify.com'')\<rparr>,
              [Warning_no_spotify_url (JStr (u ''x''))])
   \<and> process_item plain_repr
        (JDict [(u ''track'', JDict [(u ''name'', JStr (u ''x'')), (u ''id'', JStr [])])])
       = Inr (Some \<lparr>name = JStr (u ''x''), artist = u ''Unknown Artist'',
                    album = JStr (u ''Unknown Album''), duration_ms = JInt 0,
                    url = JStr (u ''https://open.spotify.com'')\<rparr>,
              [Warning_no_spotify_url (JStr (u ''x''))])"
  by (simp add: process_item_def process_track_def artist_names_of_def album_name_of_def
      track_url_of_def u_def)

subsection \<open>The file-name sanitiser\<close>

lemma set_strip_subset: "set (strip cs s) \<subseteq> set s"
proof -
  have "set (dropWhile (\<lambda>c. c \<in> set cs) (rev (dropWhile (\<lambda>c. c \<in> set cs) s)))
      \<subseteq> set (rev (dropWhile (\<lambda>c. c \<in> set cs) s))"
    by (rule set_dropWhileD [THEN subsetI]) 
  also have "\<dots> \<subseteq> set s" using set_dropWhileD [of _ "\<lambda>c. c \<in> set cs" s] by auto
  finally show ?thesis by (simp add: strip_def)
qed

lemma strip_hd: assumes "strip cs s \<noteq> []" shows "hd (strip cs s) \<notin> set cs"
proof -
  let ?a = "dropWhile (\<lambda>c. c \<in> set cs) s"
  let ?b = "dropWhile (\<lambda>c. c \<in> set cs) (rev ?a)"
  from assms have b: "?b \<noteq> []" by (simp add: strip_def)
  have a: "?a \<noteq> []"
    using b by (metis dropWhile.simps(1) rev.simps(1))
  have "hd (rev ?b) = hd ?a"
  proof -
    obtain ys where ys: "rev ?a = ys @ ?b"
      by (metis takeWhile_dropWhile_id)
    then have "?a = rev ?b @ rev ys" by (metis rev_append rev_rev_ident)
    with b show ?thesis by (metis hd_append2 rev_is_Nil_conv)
  qed
  moreover have "hd ?a \<notin> set cs" using hd_dropWhile [OF a] by simp
  ultimately show ?thesis by (simp add: strip_def)
qed

lemma strip_last: assumes "strip cs s \<noteq> []" shows "last (strip cs s) \<notin> set cs"
proof -
  let ?a = "dropWhile (\<lambda>c. c \<in> set cs) s"
  let ?b = "dropWhile (\<lambda>c. c \<in> set cs) (rev ?a)"
  from assms have b: "?b \<noteq> []" by (simp add: strip_def)
  have "last (rev ?b) = hd ?b" using b by (simp add: last_rev)
  moreover have "hd ?b \<notin> set cs" using hd_dropWhile [OF b] by simp
  ultimately show ?thesis by (simp add: strip_def)
qed

lemma strip_decompose:
  "\<exists>pre post. s = pre @ strip cs s @ post \<and> set pre \<subseteq> set cs \<and> set post \<subseteq> set cs"
proof -
  let ?P = "\<lambda>c. c \<in> set cs"
  let ?a = "dropWhile ?P s"
  have 1: "s = takeWhile ?P s @ ?a" by simp
  have "rev ?a = takeWhile ?P (rev ?a) @ dropWhile ?P (rev ?a)" by simp
  then have 2: "?a = strip cs s @ rev (takeWhile ?P (rev ?a))"
    unfolding strip_def by (metis rev_append rev_rev_ident)
  have 3: "set (takeWhile ?P s) \<subseteq> set cs" using set_takeWhileD by fastforce
  have 4: "set (rev (takeWhile ?P (rev ?a))) \<subseteq> set cs" using set_takeWhileD by fastforce
  from 1 2 have "s = takeWhile ?P s @ strip cs s @ rev (takeWhile ?P (rev ?a))" by metis
  with 3 4 show ?thesis by blast
qed

lemma sanitize_filename_eq:
  "sanitize_filename s =
     (if stripped_name s \<noteq> [] then take 200 (stripped_name s) else u ''playlist'')"
  by (simp add: sanitize_filename_def Let_def)

lemma dot_space: "set (u ''. '') = {46, 32}"
  by (auto simp: u_def)

lemma playlist_chars_safe:
  "c \<in> set (u ''playlist'') \<Longrightarrow> c \<notin> set forbidden_chars \<and> \<not> control_char c \<and> c \<noteq> 46 \<and> c \<noteq> 32"
  by (auto simp: u_def forbidden_chars_def control_char_def)

lemma stripped_name_chars:
  "c \<in> set (stripped_name s) \<Longrightarrow> c \<notin> set forbidden_chars \<and> \<not> control_char c"
  using set_strip_subset [of "u ''. ''"
      "filter (\<lambda>c. \<not> control_char c) (filter (\<lambda>c. c \<notin> set forbidden_chars) s)"]
  by (auto simp: stripped_name_def)

lemma sanitize_chars:
  assumes "c \<in> set (sanitize_filename s)"
  shows "c \<notin> set forbidden_chars \<and> \<not> control_char c"
proof (cases "stripped_name s = []")
  case True
  with assms show ?thesis using playlist_chars_safe [of c] by (simp add: sanitize_filename_eq)
next
  case False
  with assms have "c \<in> set (take 200 (stripped_name s))" by (simp add: sanitize_filename_eq)
  then have "c \<in> set (stripped_name s)" by (rule in_set_takeD)
  then show ?thesis by (rule stripped_name_chars)
qed

lemma stripped_name_ends:
  assumes "stripped_name s \<noteq> []"
  shows "hd (stripped_name s) \<notin> {46, 32} \<and> last (stripped_name s) \<notin> {46, 32}"
  using strip_hd [of "u ''. ''"] strip_last [of "u ''. ''"] assms
  unfolding stripped_name_def dot_space by blast

text \<open>
  C5, as amended. For every input string the result holds none of the characters
  \<open>< > : " / \ | ? *\<close> and no control character, is not empty, does not begin with a
  period or a space, and has at most 200 characters. The stripped text is what is left of
  the input after the removals, without the periods and spaces at both ends. When it is
  empty (in particular when every character of the input is forbidden) the result is the
  literal "playlist"; otherwise the result is its first 200 characters, so that the result
  ends in a period or a space only when the cut falls behind one.
\<close>

theorem C5_sanitize_filename:
  "(\<forall>c\<in>set (sanitize_filename s). c \<notin> set forbidden_chars \<and> \<not> control_char c)
   \<and> sanitize_filename s \<noteq> []
   \<and> hd (sanitize_filename s) \<notin> {46, 32}
   \<and> (length (stripped_name s) \<le> 200 \<longrightarrow> last (sanitize_filename s) \<notin> {46, 32})
   \<and> length (sanitize_filename s) \<le> 200
   \<and> (stripped_name s = [] \<longrightarrow> sanitize_filename s = u ''playlist'')
   \<and> (stripped_name s \<noteq> [] \<longrightarrow> sanitize_filename s = take 200 (stripped_name s)
        \<and> hd (stripped_name s) \<notin> {46, 32} \<and> last (stripped_name s) \<notin> {46, 32})
   \<and> (\<exists>pre post. filter (\<lambda>c. c \<notin> set forbidden_chars \<and> \<not> control_char c) s
          = pre @ stripped_name s @ post \<and> set pre \<subseteq> {46, 32} \<and> set post \<subseteq> {46, 32})
   \<and> ((\<forall>c\<in>set s. c \<in> set forbidden_chars \<or> control_char c)
        \<longrightarrow> sanitize_filename s = u ''playlist'')"
proof -
  have chars: "\<forall>c\<in>set (sanitize_filename s). c \<notin> set forbidden_chars \<and> \<not> control_char c"
    using sanitize_chars by blast
  have ne: "sanitize_filename s \<noteq> []"
    by (simp add: sanitize_filename_eq u_def)
  have len: "length (sanitize_filename s) \<le> 200"
    by (simp add: sanitize_filename_eq u_def)
  have empty: "stripped_name s = [] \<longrightarrow> sanitize_filename s = u ''playlist''"
    by (simp add: sanitize_filename_eq)
  have nonempty: "stripped_name s \<noteq> [] \<longrightarrow> sanitize_filename s = take 200 (stripped_name s)
        \<and> hd (stripped_name s) \<notin> {46, 32} \<and> last (stripped_name s) \<notin> {46, 32}"
    using stripped_name_ends [of s] by (simp add: sanitize_filename_eq)
  have first: "hd (sanitize_filename s) \<notin> {46, 32}"
  proof (cases "stripped_name s = []")
    case True
    then show ?thesis by (simp add: sanitize_filename_eq u_def)
  next
    case False
    then show ?thesis using stripped_name_ends [of s] by (simp add: sanitize_filename_eq)
  qed
  have final: "length (stripped_name s) \<le> 200 \<longrightarrow> last (sanitize_filename s) \<notin> {46, 32}"
  proof (cases "stripped_name s = []")
    case True
    then show ?thesis by (simp add: sanitize_filename_eq u_def)
  next
    case False
    then show ?thesis using stripped_name_ends [of s] by (simp add: sanitize_filename_eq)
  qed
  have parts: "\<exists>pre post. filter (\<lambda>c. c \<notin> set forbidden_chars \<and> \<not> control_char c) s
          = pre @ stripped_name s @ post \<and> set pre \<subseteq> {46, 32} \<and> set post \<subseteq> {46, 32}"
    using strip_decompose [of "filter (\<lambda>c. \<not> control_char c)
        (filter (\<lambda>c. c \<notin> set forbidden_chars) s)" "u ''. ''"]
    unfolding stripped_name_def dot_space by (simp add: conj_commute)
  have allbad: "(\<forall>c\<in>set s. c \<in> set forbidden_chars \<or> control_char c)
        \<longrightarrow> sanitize_filename s = u ''playlist''"
  proof
    assume a: "\<forall>c\<in>set s. c \<in> set forbidden_chars \<or> control_char c"
    then have "filter (\<lambda>c. \<not> control_char c) (filter (\<lambda>c. c \<notin> set forbidden_chars) s) = []"
      by (auto simp: filter_empty_conv)
    then have "stripped_name s = []" by (simp add: stripped_name_def strip_def)
    then show "sanitize_filename s = u ''playlist''" by (simp add: sanitize_filename_eq)
  qed
  from chars ne first final len empty nonempty parts allbad show ?thesis by blast
qed

theorem C5_sanitize_filename_witness:
  "sanitize_filename (u '' ..My: Mix?*. '') = u ''My Mix''
   \<and> stripped_name (u '' ..My: Mix?*. '') \<noteq> []
   \<and> length (stripped_name (u '' ..My: Mix?*. '')) \<le> 200
   \<and> last (sanitize_filename (u '' ..My: Mix?*. '')) \<notin> {46, 32}
   \<and> list_all (\<lambda>c. c \<notin> set forbidden_chars \<and> \<not> control_char c)
         (sanitize_filename (u '' ..My: Mix?*. ''))"
proof -
  have a: "stripped_name (u '' ..My: Mix?*. '') = u ''My Mix''"
    by code_simp
  have b: "sanitize_filename (u '' ..My: Mix?*. '') = u ''My Mix''"
    by code_simp
  note t = C5_sanitize_filename [of "u '' ..My: Mix?*. ''"]
  from t have 1: "list_all (\<lambda>c. c \<notin> set forbidden_chars \<and> \<not> control_char c)
         (sanitize_filename (u '' ..My: Mix?*. ''))"
    unfolding list_all_iff by blast
  from a have 2: "stripped_name (u '' ..My: Mix?*. '') \<noteq> []"
    and 3: "length (stripped_name (u '' ..My: Mix?*. '')) \<le> 200"
    by (simp_all add: u_def)
  from t 3 have 4: "last (sanitize_filename (u '' ..My: Mix?*. '')) \<notin> {46, 32}" by blast
  from 1 2 3 4 b show ?thesis by blast
qed

text \<open>
  C5 as stated fails in two places. The name is cut to 200 characters after it is stripped,
  so the result can end in a space: 199 letters, a space and a letter give 199 letters and
  a space. And the input "playlist" returns "playlist" although its stripped text is not
  empty.
\<close>

theorem C5_truncation_counterexample:
  "length (sanitize_filename (replicate 199 97 @ u '' b'')) = 200
   \<and> last (sanitize_filename (replicate 199 97 @ u '' b'')) = 32
   \<and> sanitize_filename (u ''playlist'') = u ''playlist''
   \<and> stripped_name (u ''playlist'') \<noteq> []"
  by code_simp

subsection \<open>File names of one run\<close>

lemma length_str_of_nat_pos: "0 < length (str_of_nat n)"
  by (induction n rule: str_of_nat.induct) (subst str_of_nat.simps, simp)

lemma length_str_of_nat_le: "0 < k \<Longrightarrow> n < 10 ^ k \<Longrightarrow> length (str_of_nat n) \<le> k"
proof (induction n arbitrary: k rule: str_of_nat.induct)
  case (1 n)
  show ?case
  proof (cases "n < 10")
    case True
    then show ?thesis using 1(2) by (subst str_of_nat.simps) simp
  next
    case False
    then obtain j where k: "k = Suc j" and j: "0 < j"
      using 1(2,3) by (cases k; cases "k - 1") auto
    from 1(3) k have "n div 10 < 10 ^ j" by (simp add: less_mult_imp_div_less mult.commute)
    with 1(1) [OF False j] have "length (str_of_nat (n div 10)) \<le> j" by simp
    with False k show ?thesis by (subst str_of_nat.simps) simp
  qed
qed

lemma length_zpad: "0 < k \<Longrightarrow> n < 10 ^ k \<Longrightarrow> length (zpad k n) = k"
  using length_str_of_nat_le [of k n] by (simp add: zpad_def)

lemma length_strftime_stamp: "valid_datetime d \<Longrightarrow> length (strftime_stamp d) = 15"
  by (simp add: strftime_stamp_def valid_datetime_def length_zpad u_def)

lemma nat_of_digits_str_of_nat: "nat_of_digits (str_of_nat n) = n"
proof (induction n rule: str_of_nat.induct)
  case (1 n)
  show ?case
  proof (cases "n < 10")
    case True
    then show ?thesis by (subst str_of_nat.simps) (simp add: nat_of_digits_def)
  next
    case False
    with 1 have "nat_of_digits (str_of_nat (n div 10)) = n div 10" by simp
    with False show ?thesis
      by (subst str_of_nat.simps) (simp add: nat_of_digits_def)
  qed
qed

lemma foldl_zeros: "foldl (\<lambda>a c. 10 * a + (c - 48)) 0 (replicate k 48) = (0::nat)"
  by (induction k) simp_all

lemma nat_of_digits_zpad: "nat_of_digits (zpad k n) = n"
  using nat_of_digits_str_of_nat [of n] by (simp add: zpad_def nat_of_digits_def foldl_zeros)

lemma zpad_inject: "zpad k m = zpad k n \<Longrightarrow> m = n"
  by (metis nat_of_digits_zpad)

lemma strftime_stamp_inject:
  assumes "valid_datetime d1" and "valid_datetime d2"
    and "strftime_stamp d1 = strftime_stamp d2"
  shows "year d1 = year d2 \<and> month d1 = month d2 \<and> day d1 = day d2
       \<and> hour d1 = hour d2 \<and> minute d1 = minute d2 \<and> second d1 = second d2"
proof -
  from assms(1) have l1: "length (zpad 4 (year d1)) = 4" "length (zpad 2 (month d1)) = 2"
      "length (zpad 2 (day d1)) = 2" "length (zpad 2 (hour d1)) = 2"
      "length (zpad 2 (minute d1)) = 2" "length (zpad 2 (second d1)) = 2"
    by (simp_all add: valid_datetime_def length_zpad)
  from assms(2) have l2: "length (zpad 4 (year d2)) = 4" "length (zpad 2 (month d2)) = 2"
      "length (zpad 2 (day d2)) = 2" "length (zpad 2 (hour d2)) = 2"
      "length (zpad 2 (minute d2)) = 2" "length (zpad 2 (second d2)) = 2"
    by (simp_all add: valid_datetime_def length_zpad)
  from assms(3) l1 l2 have "zpad 4 (year d1) = zpad 4 (year d2)
      \<and> zpad 2 (month d1) = zpad 2 (month d2) \<and> zpad 2 (day d1) = zpad 2 (day d2)
      \<and> zpad 2 (hour d1) = zpad 2 (hour d2) \<and> zpad 2 (minute d1) = zpad 2 (minute d2)
      \<and> zpad 2 (second d1) = zpad 2 (second d2)"
    by (simp add: strftime_stamp_def)
  then show ?thesis by (blast dest: zpad_inject)
qed

lemma file_name_eq_iff:
  assumes "valid_datetime d1" and "valid_datetime d2"
  shows "file_name n1 d1 ext = file_name n2 d2 ext \<longleftrightarrow>
    sanitize_filename n1 = sanitize_filename n2 \<and> strftime_stamp d1 = strftime_stamp d2"
proof -
  have "length (u ''_'' @ strftime_stamp d1 @ u ''.'' @ ext)
      = length (u ''_'' @ strftime_stamp d2 @ u ''.'' @ ext)"
    using assms by (simp add: length_strftime_stamp)
  then have "file_name n1 d1 ext = file_name n2 d2 ext \<longleftrightarrow>
      sanitize_filename n1 = sanitize_filename n2
      \<and> u ''_'' @ strftime_stamp d1 @ u ''.'' @ ext = u ''_'' @ strftime_stamp d2 @ u ''.'' @ ext"
    unfolding file_name_def by (rule append_eq_append_conv [OF disjI2])
  then show ?thesis by simp
qed

text \<open>
  C7, as amended. Two exports to the same format get the same file name exactly when the
  sanitised playlist names are equal and the two clock readings fall into the same second.
  Nothing else separates the names: two playlists of one run whose names sanitise to the
  same text and that are exported within one second share a file name.
\<close>

theorem C7_file_name_collision:
  assumes "valid_datetime d1" and "valid_datetime d2"
  shows "file_name n1 d1 ext = file_name n2 d2 ext \<longleftrightarrow>
    sanitize_filename n1 = sanitize_filename n2
    \<and> year d1 = year d2 \<and> month d1 = month d2 \<and> day d1 = day d2
    \<and> hour d1 = hour d2 \<and> minute d1 = minute d2 \<and> second d1 = second d2"
proof
  assume "file_name n1 d1 ext = file_name n2 d2 ext"
  then have "sanitize_filename n1 = sanitize_filename n2"
    and "strftime_stamp d1 = strftime_stamp d2"
    using file_name_eq_iff [OF assms] by simp_all
  then show "sanitize_filename n1 = sanitize_filename n2
    \<and> year d1 = year d2 \<and> month d1 = month d2 \<and> day d1 = day d2
    \<and> hour d1 = hour d2 \<and> minute d1 = minute d2 \<and> second d1 = second d2"
    using strftime_stamp_inject [OF assms] by simp
next
  assume "sanitize_filename n1 = sanitize_filename n2
    \<and> year d1 = year d2 \<and> month d1 = month d2 \<and> day d1 = day d2
    \<and> hour d1 = hour d2 \<and> minute d1 = minute d2 \<and> second d1 = second d2"
  then show "file_name n1 d1 ext = file_name n2 d2 ext"
    by (simp add: file_name_def strftime_stamp_def)
qed

theorem C7_file_name_collision_witness:
  "valid_datetime example_time
   \<and> u ''Mix?'' \<noteq> u ''Mix''
   \<and> file_name (u ''Mix?'') example_time (u ''csv'') = file_name (u ''Mix'') example_time (u ''csv'')
   \<and> sanitize_filename (u ''Mix?'') = sanitize_filename (u ''Mix'')"
proof -
  have v: "valid_datetime example_time"
    by (simp add: valid_datetime_def example_time_def)
  have s: "sanitize_filename (u ''Mix?'') = sanitize_filename (u ''Mix'')"
    by code_simp
  from C7_file_name_collision [OF v v, of "u ''Mix?''" "u ''csv''" "u ''Mix''"] v s
  show ?thesis by (simp add: u_def)
qed

text \<open>
  C7 as stated fails: two distinct playlists named "Mix?" and "Mix", exported to CSV in one
  run within the same second, get the same path; the run lists it twice and the second
  export overwrites the first.
\<close>

theorem C7_same_run_collision_counterexample:
  "example_playlist (u ''a'') (u ''Mix?'') \<noteq> example_playlist (u ''b'') (u ''Mix'')
   \<and> exported_files (snd (run (example_env (\<lambda>p. Last_page [example_item]) (Status 204))
        (new_worker CSV [example_playlist (u ''a'') (u ''Mix?''),
                         example_playlist (u ''b'') (u ''Mix'')] (u ''out'') [] None)))
      = [(u ''out'', u ''Mix_20240102_030405.csv''), (u ''out'', u ''Mix_20240102_030405.csv'')]"
  by code_simp

subsection \<open>Webhook messages\<close>


lemma chunk_loop_extends: "\<exists>ms. fst (chunk_loop lines msgs cur) = msgs @ ms"
proof (induction lines arbitrary: msgs cur)
  case Nil
  then show ?case by simp
next
  case (Cons line lines)
  show ?case
  proof (cases "length cur + length line > 1800")
    case True
    from Cons [of "msgs @ [cur]" line] obtain ms where
      "fst (chunk_loop lines (msgs @ [cur]) line) = (msgs @ [cur]) @ ms" by blast
    with True have "fst (chunk_loop (line # lines) msgs cur) = msgs @ (cur # ms)" by simp
    then show ?thesis by blast
  next
    case False
    with Cons [of msgs "cur @ line"] show ?thesis by simp
  qed
qed









lemma discord_messages_eq:
  "discord_messages rp playlist tracks =
     (if snd (chunk_loop (track_lines rp tracks) [discord_header playlist tracks] []) \<noteq> []
      then fst (chunk_loop (track_lines rp tracks) [discord_header playlist tracks] [])
           @ [snd (chunk_loop (track_lines rp tracks) [discord_header playlist tracks] [])]
      else fst (chunk_loop (track_lines rp tracks) [discord_header playlist tracks] []))"
  by (simp add: discord_messages_def track_lines_def split_beta Let_def)

lemma discord_messages_head:
  "discord_messages rp playlist tracks \<noteq> []
   \<and> hd (discord_messages rp playlist tracks) = discord_header playlist tracks"
proof -
  obtain ms where "fst (chunk_loop (track_lines rp tracks) [discord_header playlist tracks] [])
      = [discord_header playlist tracks] @ ms"
    using chunk_loop_extends by blast
  then show ?thesis by (simp add: discord_messages_eq)
qed












subsection \<open>What a run changes\<close>

lemma grows_refl: "grows w w"
  by (simp add: grows_def)

lemma grows_trans:
  assumes "grows a b" and "grows b c"
  shows "grows a c"
proof -
  from assms obtain ps1 ps2 where ps: "emitted b = emitted a @ ps1" "list_all is_progress ps1"
      "emitted c = emitted b @ ps2" "list_all is_progress ps2"
    unfolding grows_def by blast
  from assms obtain n1 n2 where n: "files b = files a @ n1"
      "exported_files b = exported_files a @ map fst n1" "export_format a = DISCORD \<longrightarrow> n1 = []"
      "files c = files b @ n2"
      "exported_files c = exported_files b @ map fst n2" "export_format b = DISCORD \<longrightarrow> n2 = []"
    unfolding grows_def by blast
  from assms have cfg: "export_format c = export_format a" "playlists c = playlists a"
      "output_dir c = output_dir a" "webhook_url c = webhook_url a" "export_format b = export_format a"
    unfolding grows_def by simp_all
  have 1: "emitted c = emitted a @ (ps1 @ ps2) \<and> list_all is_progress (ps1 @ ps2)"
    using ps by simp
  have 2: "files c = files a @ (n1 @ n2) \<and> exported_files c = exported_files a @ map fst (n1 @ n2)
      \<and> (export_format a = DISCORD \<longrightarrow> n1 @ n2 = [])"
    using n cfg(5) by simp
  from cfg 1 2 show ?thesis unfolding grows_def by blast
qed

lemma grows_polls: "grows w (w\<lparr>polls_until_cancel := x\<rparr>)"
  by (simp add: grows_def)

lemma poll_cancelled_grows: "grows w (snd (poll_cancelled w))"
  by (simp add: poll_cancelled_def grows_refl grows_polls split: option.splits nat.splits)

lemma log_all_grows: "grows w (log_all ls w)"
  by (simp add: grows_def log_all_def)

lemma emit_progress_grows: "grows w (emit (Progress i n l) w)"
proof -
  have "emitted (emit (Progress i n l) w) = emitted w @ [Progress i n l]
      \<and> list_all is_progress [Progress i n l]"
    by (simp add: emit_def)
  moreover have "files (emit (Progress i n l) w) = files w @ []
      \<and> exported_files (emit (Progress i n l) w) = exported_files w @ map fst ([]::(path \<times> content) list)"
    by (simp add: emit_def)
  ultimately show ?thesis unfolding grows_def by (auto simp: emit_def)
qed

lemma items_loop_grows: "grows w (snd (items_loop rp items tracks w))"
proof (induction items arbitrary: tracks w)
  case Nil
  then show ?case by (simp add: grows_refl)
next
  case (Cons item items)
  obtain b w1 where p: "poll_cancelled w = (b, w1)" by (cases "poll_cancelled w")
  then have g1: "grows w w1" using poll_cancelled_grows [of w] by simp
  show ?case
  proof (cases b)
    case True
    with p g1 show ?thesis by simp
  next
    case False
    show ?thesis
    proof (cases "process_item rp item")
      case (Inl e)
      with p False g1 show ?thesis by simp
    next
      case (Inr r)
      obtain t logs where r: "r = (t, logs)" by (cases r)
      have "grows w1 (log_all logs w1)" by (rule log_all_grows)
      with g1 have "grows w (log_all logs w1)" by (rule grows_trans)
      from grows_trans [OF this Cons.IH] p False Inr r show ?thesis by simp
    qed
  qed
qed

lemma pages_loop_grows: "grows w (snd (pages_loop rp f tracks w))"
proof (induction f arbitrary: tracks w)
  case (Fetch_raises e)
  then show ?case by (simp add: grows_refl)
next
  case Fetch_falsy
  then show ?case by (simp add: grows_refl)
next
  case (Last_page items)
  show ?case using items_loop_grows [of w rp items tracks]
    by (auto split: prod.splits sum.splits)
next
  case (Page items nxt)
  obtain r w1 where i: "items_loop rp items tracks w = (r, w1)" by (cases "items_loop rp items tracks w")
  then have g1: "grows w w1" using items_loop_grows [of w rp items tracks] by simp
  show ?case
  proof (cases r)
    case (Inl e)
    with i g1 show ?thesis by simp
  next
    case (Inr p)
    obtain b tracks1 where p: "p = (b, tracks1)" by (cases p)
    show ?thesis
    proof (cases b)
      case True
      with i Inr p g1 show ?thesis by simp
    next
      case False
      from grows_trans [OF g1 Page.IH] i Inr p False show ?thesis by simp
    qed
  qed
qed

lemma get_playlist_tracks_grows: "grows w (snd (get_playlist_tracks ev pid w))"
  by (simp add: get_playlist_tracks_def pages_loop_grows)

lemma grows_posts: "grows w (w\<lparr>posts := x\<rparr>)"
  by (simp add: grows_def)

lemma post_loop_grows: "grows w (snd (post_loop ev msgs w))"
proof (induction msgs arbitrary: w)
  case Nil
  then show ?case by (simp add: grows_refl)
next
  case (Cons msg msgs)
  obtain b w1 where p: "poll_cancelled w = (b, w1)" by (cases "poll_cancelled w")
  then have g1: "grows w w1" using poll_cancelled_grows [of w] by simp
  have g2: "grows w (w1\<lparr>posts := posts w1 @ [msg]\<rparr>)"
    using grows_trans [OF g1 grows_posts] .
  show ?case
  proof (cases b)
    case True
    with p g1 show ?thesis by simp
  next
    case False
    show ?thesis
    proof (cases "post_response ev (length (posts w1)) msg")
      case (Post_raises e)
      with p False g2 show ?thesis by (simp add: Let_def)
    next
      case (Status code)
      show ?thesis
      proof (cases "code \<noteq> 200 \<and> code \<noteq> 204")
        case True
        with p False Status g2 show ?thesis by (simp add: Let_def)
      next
        case f: False
        from grows_trans [OF g2 Cons.IH] p False Status f show ?thesis by (auto simp: Let_def)
      qed
    qed
  qed
qed

lemma export_to_discord_grows: "grows w (snd (export_to_discord ev playlist tracks w))"
proof (cases "webhook_url w = []")
  case True
  then show ?thesis by (simp add: export_to_discord_def grows_refl)
next
  case False
  obtain r w1 where p: "post_loop ev (discord_messages (py_repr ev) playlist tracks) w = (r, w1)"
    by (cases "post_loop ev (discord_messages (py_repr ev) playlist tracks) w")
  then have g1: "grows w w1" using post_loop_grows [of w ev] by (metis snd_conv)
  have g2: "grows w (log_all [Info_exported_discord (playlist_name playlist)] w1)"
    using grows_trans [OF g1 log_all_grows] .
  from False p g1 g2 show ?thesis
    by (auto simp: export_to_discord_def split: sum.splits bool.splits)
qed

lemma export_to_csv_wrote:
  "wrote w (fst (export_to_csv ev playlist tracks w)) (snd (export_to_csv ev playlist tracks w))"
  by (simp add: export_to_csv_def read_clock_def write_file_def wrote_def log_all_def Let_def
      split: option.splits)

lemma export_to_json_wrote:
  "wrote w (fst (export_to_json ev playlist tracks w)) (snd (export_to_json ev playlist tracks w))"
  by (simp add: export_to_json_def read_clock_def write_file_def wrote_def log_all_def Let_def
      split: option.splits)

lemma export_to_txt_wrote:
  "wrote w (fst (export_to_txt ev playlist tracks w)) (snd (export_to_txt ev playlist tracks w))"
  by (simp add: export_to_txt_def read_clock_def wrote_def log_all_def Let_def
      split: option.splits)

lemma export_to_markdown_wrote:
  "wrote w (fst (export_to_markdown ev playlist tracks w))
     (snd (export_to_markdown ev playlist tracks w))"
  by (simp add: export_to_markdown_def read_clock_def wrote_def log_all_def Let_def
      split: option.splits)

lemma wrote_grows:
  assumes "wrote w (fst x) (snd x)" and "export_format w \<noteq> DISCORD"
  shows "grows w (snd (case x of (Inl e, w1) \<Rightarrow> (Inl e, w1)
                        | (Inr filepath, w1) \<Rightarrow>
                            (Inr (), w1\<lparr>exported_files := exported_files w1 @ [filepath]\<rparr>)))"
proof (cases x)
  case (Pair r w1)
  show ?thesis
  proof (cases r)
    case (Inl e)
    with Pair assms show ?thesis by (simp add: grows_def wrote_def)
  next
    case (Inr fp)
    with Pair assms obtain c where c: "files w1 = files w @ [(fp, c)]"
      by (auto simp: wrote_def)
    let ?w2 = "w1\<lparr>exported_files := exported_files w1 @ [fp]\<rparr>"
    have "files ?w2 = files w @ [(fp, c)] \<and> exported_files ?w2 = exported_files w @ map fst [(fp, c)]
        \<and> (export_format w = DISCORD \<longrightarrow> [(fp, c)] = [])"
      using Pair assms c by (simp add: wrote_def)
    moreover have "emitted ?w2 = emitted w @ [] \<and> list_all is_progress []"
      using Pair assms by (simp add: wrote_def)
    moreover have "export_format ?w2 = export_format w \<and> playlists ?w2 = playlists w
     \<and> output_dir ?w2 = output_dir w \<and> webhook_url ?w2 = webhook_url w"
      using Pair assms by (simp add: wrote_def)
    ultimately have "grows w ?w2" unfolding grows_def by blast
    with Pair Inr show ?thesis by simp
  qed
qed

lemma export_playlist_grows: "grows w (snd (export_playlist ev playlist tracks w))"
proof (cases "export_format w")
  case DISCORD
  then show ?thesis by (simp add: export_playlist_def export_to_discord_grows)
next
  case CSV
  then show ?thesis
    using wrote_grows [OF export_to_csv_wrote, of w ev playlist tracks]
    by (simp add: export_playlist_def)
next
  case JSON
  then show ?thesis
    using wrote_grows [OF export_to_json_wrote, of w ev playlist tracks]
    by (simp add: export_playlist_def)
next
  case TXT
  then show ?thesis
    using wrote_grows [OF export_to_txt_wrote, of w ev playlist tracks]
    by (simp add: export_playlist_def)
next
  case MARKDOWN
  then show ?thesis
    using wrote_grows [OF export_to_markdown_wrote, of w ev playlist tracks]
    by (simp add: export_playlist_def)
qed

text \<open>One pass of the loop body, as an equation on the pieces.\<close>

lemma run_loop_step:
  assumes "poll_cancelled w = (False, w1)"
    and "get_playlist_tracks ev (playlist_id playlist)
           (emit (Progress i tot (u ''Exporting: '' @ playlist_name playlist)) w1) = (Inr tracks, w3)"
  shows "run_loop ev tot i (playlist # rest) w =
    (if tracks = []
     then run_loop ev tot (Suc i) rest (log_all [Warning_no_tracks_found (playlist_name playlist)] w3)
     else (case export_playlist ev playlist tracks w3 of
             (Inl e, w4) \<Rightarrow> (Inl e, w4)
           | (Inr _, w4) \<Rightarrow> run_loop ev tot (Suc i) rest w4))"
  using assms by (simp add: Let_def)

lemma run_loop_grows: "grows w (snd (run_loop ev tot i pls w))"
proof (induction pls arbitrary: i w)
  case Nil
  then show ?case by (simp add: grows_refl)
next
  case (Cons playlist rest)
  obtain b w1 where p: "poll_cancelled w = (b, w1)" by (cases "poll_cancelled w")
  then have g1: "grows w w1" using poll_cancelled_grows [of w] by simp
  show ?case
  proof (cases b)
    case True
    with p grows_trans [OF g1 log_all_grows] show ?thesis by simp
  next
    case False
    let ?w2 = "emit (Progress i tot (u ''Exporting: '' @ playlist_name playlist)) w1"
    have g2: "grows w ?w2" using grows_trans [OF g1 emit_progress_grows] .
    obtain r w3 where g: "get_playlist_tracks ev (playlist_id playlist) ?w2 = (r, w3)"
      by (cases "get_playlist_tracks ev (playlist_id playlist) ?w2")
    then have "grows ?w2 w3" using get_playlist_tracks_grows [of ?w2 ev] by (metis snd_conv)
    with g2 have g3: "grows w w3" by (rule grows_trans)
    show ?thesis
    proof (cases r)
      case (Inl e)
      with p False g g3 show ?thesis by (simp add: Let_def)
    next
      case (Inr tracks)
      from p False have p': "poll_cancelled w = (False, w1)" by simp
      from g Inr have g': "get_playlist_tracks ev (playlist_id playlist) ?w2 = (Inr tracks, w3)"
        by simp
      note step = run_loop_step [OF p' g', of rest]
      show ?thesis
      proof (cases "tracks = []")
        case True
        have "grows w (log_all [Warning_no_tracks_found (playlist_name playlist)] w3)"
          using grows_trans [OF g3 log_all_grows] .
        from grows_trans [OF this Cons.IH] True step show ?thesis by simp
      next
        case nonempty: False
        obtain r4 w4 where e: "export_playlist ev playlist tracks w3 = (r4, w4)"
          by (cases "export_playlist ev playlist tracks w3")
        then have "grows w3 w4" using export_playlist_grows [of w3 ev] by (metis snd_conv)
        with g3 have g4: "grows w w4" by (rule grows_trans)
        show ?thesis
        proof (cases r4)
          case (Inl e4)
          with e nonempty step g4 show ?thesis by simp
        next
          case (Inr x)
          from grows_trans [OF g4 Cons.IH] e nonempty step Inr show ?thesis by simp
        qed
      qed
    qed
  qed
qed

lemma run_loop_append:
  "run_loop ev tot i (xs @ ys) w =
     (case run_loop ev tot i xs w of
        (Inr False, w1) \<Rightarrow> run_loop ev tot (i + length xs) ys w1
      | r \<Rightarrow> r)"
proof (induction xs arbitrary: i w)
  case Nil
  then show ?case by simp
next
  case (Cons playlist rest)
  obtain b w1 where p: "poll_cancelled w = (b, w1)" by (cases "poll_cancelled w")
  show ?case
  proof (cases b)
    case True
    with p show ?thesis by simp
  next
    case False
    let ?w2 = "emit (Progress i tot (u ''Exporting: '' @ playlist_name playlist)) w1"
    obtain r w3 where g: "get_playlist_tracks ev (playlist_id playlist) ?w2 = (r, w3)"
      by (cases "get_playlist_tracks ev (playlist_id playlist) ?w2")
    show ?thesis
    proof (cases r)
      case (Inl e)
      with p False g show ?thesis by (simp add: Let_def)
    next
      case (Inr tracks)
      from p False have p': "poll_cancelled w = (False, w1)" by simp
      from g Inr have g': "get_playlist_tracks ev (playlist_id playlist) ?w2 = (Inr tracks, w3)"
        by simp
      note step = run_loop_step [OF p' g']
      show ?thesis
      proof (cases "tracks = []")
        case True
        let ?w4 = "log_all [Warning_no_tracks_found (playlist_name playlist)] w3"
        have l: "run_loop ev tot i ((playlist # rest) @ ys) w = run_loop ev tot (Suc i) (rest @ ys) ?w4"
          using step [of "rest @ ys"] True by (simp del: run_loop.simps)
        have r: "run_loop ev tot i (playlist # rest) w = run_loop ev tot (Suc i) rest ?w4"
          using step [of rest] True by (simp del: run_loop.simps)
        show ?thesis unfolding l r Cons.IH by (simp split: prod.splits sum.splits bool.splits)
      next
        case nonempty: False
        obtain r4 w4 where e: "export_playlist ev playlist tracks w3 = (r4, w4)"
          by (cases "export_playlist ev playlist tracks w3")
        show ?thesis
        proof (cases r4)
          case (Inl e4)
          have l: "run_loop ev tot i ((playlist # rest) @ ys) w = (Inl e4, w4)"
            using step [of "rest @ ys"] nonempty e Inl by (simp del: run_loop.simps)
          have r: "run_loop ev tot i (playlist # rest) w = (Inl e4, w4)"
            using step [of rest] nonempty e Inl by (simp del: run_loop.simps)
          show ?thesis unfolding l r by simp
        next
          case (Inr x)
          have l: "run_loop ev tot i ((playlist # rest) @ ys) w = run_loop ev tot (Suc i) (rest @ ys) w4"
            using step [of "rest @ ys"] nonempty e Inr by (simp del: run_loop.simps)
          have r: "run_loop ev tot i (playlist # rest) w = run_loop ev tot (Suc i) rest w4"
            using step [of rest] nonempty e Inr by (simp del: run_loop.simps)
          show ?thesis unfolding l r Cons.IH by (simp split: prod.splits sum.splits bool.splits)
        qed
      qed
    qed
  qed
qed

lemma run_eq:
  "run ev w =
     (case run_loop ev (length (playlists w)) 0 (playlists w) w of
        (Inr True, w1) \<Rightarrow> (Cancelled, w1)
      | (Inr False, w1) \<Rightarrow>
          (Completed, emit (Finished (exported_files w1)) (emit Progress_done w1))
      | (Inl e, w1) \<Rightarrow> (Failed e, emit (Error e) (log_all [Exception_export_error e] w1)))"
  by (simp add: run_def)

lemma post_loop_all_ok:
  assumes "polls_until_cancel w = None" and "\<forall>k c. post_response ev k c = Status 204"
  shows "fst (post_loop ev msgs w) = Inr False"
  using assms
proof (induction msgs arbitrary: w)
  case Nil
  then show ?case by simp
next
  case (Cons msg msgs)
  from Cons.prems(1) have p: "poll_cancelled w = (False, w)" by (simp add: poll_cancelled_def)
  have "polls_until_cancel (w\<lparr>posts := posts w @ [msg]\<rparr>) = None" using Cons.prems(1) by simp
  from Cons.IH [OF this Cons.prems(2)] p Cons.prems(2) show ?case by (simp add: Let_def)
qed

lemma export_to_discord_all_ok:
  assumes "polls_until_cancel w = None" and "\<forall>k c. post_response ev k c = Status 204"
    and "webhook_url w \<noteq> []"
  shows "fst (export_to_discord ev playlist tracks w) = Inr ()"
  using post_loop_all_ok [OF assms(1,2), of "discord_messages (py_repr ev) playlist tracks"] assms(3)
  by (cases "post_loop ev (discord_messages (py_repr ev) playlist tracks) w")
     (simp add: export_to_discord_def)

lemma example_single_page:
  "polls_until_cancel w = None \<Longrightarrow>
   get_playlist_tracks (example_env single_page_listing r) pid w
     = (Inr [example_track], log_all [Warning_no_spotify_url (JStr (u ''x''))] w)"
  by (simp add: get_playlist_tracks_def example_env_def single_page_listing_def
      poll_cancelled_def example_item_def example_track_def process_item_def process_track_def
      artist_names_of_def album_name_of_def track_url_of_def u_def bind_exn_def)

lemma example_webhook_run_completes: "fst (run (example_env single_page_listing (Status 204))
     (new_worker DISCORD [example_playlist (u ''a'') (u ''A'')] (u ''out'') (u ''hook'') None)) = Completed"
proof -
  let ?ev = "example_env single_page_listing (Status 204)"
  let ?p = "example_playlist (u ''a'') (u ''A'')"
  let ?w = "new_worker DISCORD [?p] (u ''out'') (u ''hook'') None"
  let ?w2 = "emit (Progress 0 1 (u ''Exporting: '' @ playlist_name ?p)) ?w"
  let ?w3 = "log_all [Warning_no_spotify_url (JStr (u ''x''))] ?w2"
  have p: "poll_cancelled ?w = (False, ?w)" by (simp add: poll_cancelled_def new_worker_def)
  have g: "get_playlist_tracks ?ev (playlist_id ?p) ?w2 = (Inr [example_track], ?w3)"
    by (rule example_single_page) (simp add: emit_def new_worker_def)
  have ok: "\<forall>k c. post_response ?ev k c = Status 204" by (simp add: example_env_def)
  have "fst (export_to_discord ?ev ?p [example_track] ?w3) = Inr ()"
    by (rule export_to_discord_all_ok [OF _ ok])
       (simp_all add: log_all_def emit_def new_worker_def u_def)
  then have e: "fst (export_playlist ?ev ?p [example_track] ?w3) = Inr ()"
    by (simp add: export_playlist_def log_all_def emit_def new_worker_def)
  have "fst (run_loop ?ev 1 0 [?p] ?w) = Inr False"
    unfolding run_loop_step [OF p g] using e
    by (cases "export_playlist ?ev ?p [example_track] ?w3") simp
  then show ?thesis
    by (cases "run_loop ?ev 1 0 [?p] ?w") (simp add: run_eq new_worker_def)
qed


subsection \<open>Runs\<close>

text \<open>
  C10. A run with the webhook format that starts with an empty list of exported files never
  writes a file and never lists one; when it processes all its playlists without
  cancellation or error, it emits, after its progress signals, the final progress signal
  and the completion signal with the empty list.
\<close>

theorem C10_webhook_run_lists_no_files:
  assumes "export_format w = DISCORD" and "exported_files w = []"
  shows "exported_files (snd (run ev w)) = []
     \<and> files (snd (run ev w)) = files w
     \<and> (fst (run ev w) = Completed \<longrightarrow>
          (\<exists>ps. emitted (snd (run ev w)) = emitted w @ ps @ [Progress_done, Finished []]
             \<and> list_all is_progress ps))"
proof -
  obtain r w1 where l: "run_loop ev (length (playlists w)) 0 (playlists w) w = (r, w1)"
    by (cases "run_loop ev (length (playlists w)) 0 (playlists w) w")
  then have g: "grows w w1"
    using run_loop_grows [of w ev "length (playlists w)" 0 "playlists w"] by simp
  with assms have f: "files w1 = files w" and x: "exported_files w1 = []"
    by (auto simp: grows_def)
  from g obtain ps where ps: "emitted w1 = emitted w @ ps" "list_all is_progress ps"
    by (auto simp: grows_def)
  show ?thesis
  proof (cases r)
    case (Inl e)
    with l f x show ?thesis by (simp add: run_eq emit_def log_all_def)
  next
    case (Inr b)
    show ?thesis
    proof (cases b)
      case True
      with l Inr f x show ?thesis by (simp add: run_eq)
    next
      case False
      with l Inr f x ps show ?thesis by (simp add: run_eq emit_def)
    qed
  qed
qed

theorem C10_webhook_run_lists_no_files_witness:
  "export_format (new_worker DISCORD [example_playlist (u ''a'') (u ''A'')] (u ''out'') (u ''hook'')
      None) = DISCORD
   \<and> exported_files (new_worker DISCORD [example_playlist (u ''a'') (u ''A'')] (u ''out'')
      (u ''hook'') None) = []
   \<and> fst (run (example_env single_page_listing (Status 204))
             (new_worker DISCORD [example_playlist (u ''a'') (u ''A'')] (u ''out'') (u ''hook'')
                None)) = Completed
   \<and> (\<exists>ps. emitted (snd (run (example_env single_page_listing (Status 204))
                 (new_worker DISCORD [example_playlist (u ''a'') (u ''A'')] (u ''out'')
                    (u ''hook'') None)))
            = ps @ [Progress_done, Finished []] \<and> list_all is_progress ps)"
proof -
  let ?w = "new_worker DISCORD [example_playlist (u ''a'') (u ''A'')] (u ''out'') (u ''hook'') None"
  let ?ev = "example_env single_page_listing (Status 204)"
  have a: "export_format ?w = DISCORD" by (simp add: new_worker_def)
  have b: "exported_files ?w = []" by (simp add: new_worker_def)
  have d: "emitted ?w = []" by (simp add: new_worker_def)
  note c = example_webhook_run_completes
  from C10_webhook_run_lists_no_files [OF a b, of ?ev] c
  obtain ps where "emitted (snd (run ?ev ?w)) = emitted ?w @ ps @ [Progress_done, Finished []]"
    "list_all is_progress ps" by blast
  then have "\<exists>ps. emitted (snd (run ?ev ?w)) = ps @ [Progress_done, Finished []]
      \<and> list_all is_progress ps" unfolding d by auto
  with a b c show ?thesis by blast
qed

text \<open>
  C4, as amended. When the first playlists of the selection have been processed without
  cancellation or error and the flag is set as the next playlist boundary is reached, the
  run ends by returning: nothing further is fetched, written or posted, and neither a
  completion nor a failure signal is emitted (the signals of the run are progress signals
  only). What is known of the run is the worker it leaves behind, whose exported_files
  are exactly the paths of the files written so far, in order.
\<close>

theorem C4_cancel_at_boundary:
  assumes "playlists w = pre @ rest" and "rest \<noteq> []"
    and "fst (run_loop ev (length (playlists w)) 0 pre w) = Inr False"
    and "polls_until_cancel (snd (run_loop ev (length (playlists w)) 0 pre w)) = Some 0"
  shows "run ev w = (Cancelled, log_all [Info_export_cancelled]
                        (snd (run_loop ev (length (playlists w)) 0 pre w)))
     \<and> files (snd (run ev w)) = files (snd (run_loop ev (length (playlists w)) 0 pre w))
     \<and> exported_files (snd (run ev w))
         = exported_files (snd (run_loop ev (length (playlists w)) 0 pre w))
     \<and> posts (snd (run ev w)) = posts (snd (run_loop ev (length (playlists w)) 0 pre w))
     \<and> (\<exists>ps. emitted (snd (run ev w)) = emitted w @ ps \<and> list_all is_progress ps)
     \<and> (\<exists>new. files (snd (run ev w)) = files w @ new
           \<and> exported_files (snd (run ev w)) = exported_files w @ map fst new)"
proof -
  define n where "n = length (playlists w)"
  obtain w1 where l: "run_loop ev n 0 pre w = (Inr False, w1)"
    using assms(3) unfolding n_def by (cases "run_loop ev (length (playlists w)) 0 pre w") simp
  with assms(4) have c: "polls_until_cancel w1 = Some 0" by (simp add: n_def)
  from assms(2) obtain p ps where rest: "rest = p # ps" by (cases rest) auto
  have t: "run_loop ev n (0 + length pre) rest w1 = (Inr True, log_all [Info_export_cancelled] w1)"
    using c unfolding rest by (simp add: poll_cancelled_def)
  have "run_loop ev n 0 (pre @ rest) w = (Inr True, log_all [Info_export_cancelled] w1)"
    unfolding run_loop_append l using t by simp
  then have all: "run_loop ev n 0 (playlists w) w = (Inr True, log_all [Info_export_cancelled] w1)"
    using assms(1) by simp
  then have r: "run ev w = (Cancelled, log_all [Info_export_cancelled] w1)"
    by (simp add: run_eq n_def)
  have g: "grows w (log_all [Info_export_cancelled] w1)"
    using run_loop_grows [of w ev n 0 "playlists w"] all by simp
  from g have e: "\<exists>ps. emitted (log_all [Info_export_cancelled] w1) = emitted w @ ps
      \<and> list_all is_progress ps"
    unfolding grows_def by blast
  from g have f: "\<exists>new. files (log_all [Info_export_cancelled] w1) = files w @ new
           \<and> exported_files (log_all [Info_export_cancelled] w1) = exported_files w @ map fst new"
    unfolding grows_def by blast
  from r e f l show ?thesis by (simp add: log_all_def n_def)
qed

theorem C4_cancel_at_boundary_witness:
  "fst (run (example_env single_page_listing (Status 204))
          (new_worker CSV three_playlists (u ''out'') [] (Some 2))) = Cancelled
   \<and> exported_files (snd (run (example_env single_page_listing (Status 204))
          (new_worker CSV three_playlists (u ''out'') [] (Some 2))))
       = exported_files (snd (run_loop (example_env single_page_listing (Status 204)) 3 0
           [example_playlist (u ''a'') (u ''A'')]
           (new_worker CSV three_playlists (u ''out'') [] (Some 2))))
   \<and> files (snd (run (example_env single_page_listing (Status 204))
          (new_worker CSV three_playlists (u ''out'') [] (Some 2))))
       = files (snd (run_loop (example_env single_page_listing (Status 204)) 3 0
           [example_playlist (u ''a'') (u ''A'')]
           (new_worker CSV three_playlists (u ''out'') [] (Some 2))))"
proof -
  let ?ev = "example_env single_page_listing (Status 204)"
  let ?w = "new_worker CSV three_playlists (u ''out'') [] (Some 2)"
  let ?pre = "[example_playlist (u ''a'') (u ''A'')]"
  let ?rest = "[example_playlist (u ''b'') (u ''B''), example_playlist (u ''c'') (u ''C'')]"
  have pl: "playlists ?w = ?pre @ ?rest"
    by (simp add: new_worker_def three_playlists_def)
  have n: "length (playlists ?w) = 3"
    by (simp add: new_worker_def three_playlists_def)
  have ne: "?rest \<noteq> []" by simp
  have a: "fst (run_loop ?ev (length (playlists ?w)) 0 ?pre ?w) = Inr False"
    unfolding n by code_simp
  have b: "polls_until_cancel (snd (run_loop ?ev (length (playlists ?w)) 0 ?pre ?w)) = Some 0"
    unfolding n by code_simp
  note t = C4_cancel_at_boundary [OF pl ne a b, unfolded n]
  from t have 1: "fst (run ?ev ?w) = Cancelled" by (simp del: run_loop.simps)
  from t have 2: "exported_files (snd (run ?ev ?w))
      = exported_files (snd (run_loop ?ev 3 0 ?pre ?w))" by blast
  from t have 3: "files (snd (run ?ev ?w)) = files (snd (run_loop ?ev 3 0 ?pre ?w))" by blast
  from 1 2 3 show ?thesis by blast
qed

text \<open>
  C4 as stated fails: three playlists are selected for CSV and the flag is set after the
  first one is exported. The run ends with one exported file, and the only signal it has
  emitted is the first progress signal: no result, partial or not, is delivered.
\<close>

theorem C4_no_result_counterexample:
  "fst (run (example_env single_page_listing (Status 204))
          (new_worker CSV three_playlists (u ''out'') [] (Some 2))) = Cancelled
   \<and> emitted (snd (run (example_env single_page_listing (Status 204))
           (new_worker CSV three_playlists (u ''out'') [] (Some 2))))
     = [Progress 0 3 (u ''Exporting: A'')]
   \<and> exported_files (snd (run (example_env single_page_listing (Status 204))
           (new_worker CSV three_playlists (u ''out'') [] (Some 2))))
     = [(u ''out'', u ''A_20240102_030405.csv'')]"
  by code_simp

text \<open>
  C1 is not met by the code. The first playlist has two pages and the fetch of the second
  page raises: the function loses the track of the first page and lets the exception
  through, and the run ends in its except clause. No file is written, not even for the
  two playlists that follow, and the error signal is emitted.
\<close>

theorem C1_page_fetch_failure_aborts_run:
  "fst (get_playlist_tracks (example_env failing_listing (Status 204)) (u ''a'')
          (new_worker CSV three_playlists (u ''out'') [] None)) = Inl (RemoteError (u ''boom''))
   \<and> run (example_env failing_listing (Status 204))
        (new_worker CSV three_playlists (u ''out'') [] None)
      = (Failed (RemoteError (u ''boom'')),
         (new_worker CSV three_playlists (u ''out'') [] None)
           \<lparr>emitted := [Progress 0 3 (u ''Exporting: A''), Error (RemoteError (u ''boom''))],
            logged := [Warning_no_spotify_url (JStr (u ''x'')),
                       Exception_export_error (RemoteError (u ''boom''))]\<rparr>)"
  by code_simp

subsection \<open>Failed webhook posts\<close>

text \<open>
  Posting is the only thing that changes the trace of posts, and a run goes on only after
  a post that succeeded: at every moment all posts have succeeded, or all but the last.
\<close>

lemma post_results_append:
  "post_results ev (w\<lparr>posts := posts w @ [m]\<rparr>)
     = post_results ev w @ [post_response ev (length (posts w)) m]"
  by (simp add: post_results_def)

lemma post_results_cong: "posts w' = posts w \<Longrightarrow> post_results ev w' = post_results ev w"
  by (simp add: post_results_def)

lemma posted_good: "list_all success (post_results ev w) \<Longrightarrow> posted ev r w"
  by (simp add: posted_def)

lemma poll_cancelled_posts: "posts (snd (poll_cancelled w)) = posts w"
  by (simp add: poll_cancelled_def split: option.splits nat.splits)

lemma post_loop_posted:
  assumes "list_all success (post_results ev w)"
  shows "posted ev (fst (post_loop ev msgs w)) (snd (post_loop ev msgs w))"
  using assms
proof (induction msgs arbitrary: w)
  case Nil
  then show ?case by (simp add: posted_good)
next
  case (Cons msg msgs)
  obtain b w1 where p: "poll_cancelled w = (b, w1)" by (cases "poll_cancelled w")
  then have pw: "posts w1 = posts w" using poll_cancelled_posts [of w] by simp
  then have good1: "list_all success (post_results ev w1)"
    using Cons.prems post_results_cong [of w1 w ev] by simp
  let ?w2 = "w1\<lparr>posts := posts w1 @ [msg]\<rparr>"
  let ?r = "post_response ev (length (posts w1)) msg"
  have res: "post_results ev ?w2 = post_results ev w1 @ [?r]" by (rule post_results_append)
  show ?case
  proof (cases b)
    case True
    with p good1 show ?thesis by (simp add: posted_good)
  next
    case False
    show ?thesis
    proof (cases "success ?r")
      case True
      then have c: "?r = Status 200 \<or> ?r = Status 204" by (simp add: success_def)
      from True good1 res have "list_all success (post_results ev ?w2)" by simp
      from Cons.IH [OF this] p False c show ?thesis by (auto simp: Let_def)
    next
      case bad: False
      have e: "fst (post_loop ev (msg # msgs) w) = Inl (post_exn ?r)
          \<and> snd (post_loop ev (msg # msgs) w) = ?w2"
      proof (cases ?r)
        case (Status code)
        with bad have "code \<noteq> 200 \<and> code \<noteq> 204" by (auto simp: success_def)
        with p False Status show ?thesis by (simp add: Let_def)
      next
        case (Post_raises e)
        with p False show ?thesis by (simp add: Let_def)
      qed
      have "\<exists>rs x. post_results ev ?w2 = rs @ [x] \<and> list_all success rs \<and> \<not> success x
           \<and> Inl (post_exn ?r) = (Inl (post_exn x) :: exn + bool)"
        using res good1 bad by blast
      then show ?thesis unfolding posted_def using e by simp
    qed
  qed
qed

lemma posted_Inl_Inr:
  "posted ev (Inl e :: exn + 'a) w \<Longrightarrow> posted ev (Inl e :: exn + 'b) w"
  by (auto simp: posted_def)

lemma posted_Inr: "posted ev (Inr x :: exn + 'a) w \<Longrightarrow> list_all success (post_results ev w)"
  by (auto simp: posted_def)

lemma posted_cong: "posts w' = posts w \<Longrightarrow> posted ev r w \<Longrightarrow> posted ev r w'"
  by (simp add: posted_def post_results_cong [of w' w])

lemma export_to_discord_posted:
  assumes "list_all success (post_results ev w)"
  shows "posted ev (fst (export_to_discord ev playlist tracks w))
           (snd (export_to_discord ev playlist tracks w))"
proof (cases "webhook_url w = []")
  case True
  with assms show ?thesis by (simp add: export_to_discord_def posted_good)
next
  case False
  let ?m = "discord_messages (py_repr ev) playlist tracks"
  obtain r w1 where p: "post_loop ev ?m w = (r, w1)" by (cases "post_loop ev ?m w")
  with post_loop_posted [OF assms, of ?m] have pd: "posted ev r w1" by simp
  show ?thesis
  proof (cases r)
    case (Inl e)
    with pd have "posted ev (Inl e :: exn + unit) w1" by (simp add: posted_Inl_Inr)
    with False p Inl show ?thesis by (simp add: export_to_discord_def)
  next
    case (Inr b)
    with pd have g: "list_all success (post_results ev w1)" by (simp add: posted_Inr)
    have "list_all success (post_results ev (log_all [Info_exported_discord (playlist_name playlist)] w1))"
      using g post_results_cong [of "log_all [Info_exported_discord (playlist_name playlist)] w1" w1 ev]
      by (simp add: log_all_def)
    with g False p Inr show ?thesis
      by (cases b) (simp_all add: export_to_discord_def posted_good)
  qed
qed

lemma items_loop_posts: "posts (snd (items_loop rp items tracks w)) = posts w"
proof (induction items arbitrary: tracks w)
  case Nil
  then show ?case by simp
next
  case (Cons item items)
  obtain b w1 where p: "poll_cancelled w = (b, w1)" by (cases "poll_cancelled w")
  then have pw: "posts w1 = posts w" using poll_cancelled_posts [of w] by simp
  show ?case
  proof (cases b)
    case True
    with p pw show ?thesis by simp
  next
    case False
    show ?thesis
    proof (cases "process_item rp item")
      case (Inl e)
      with p False pw show ?thesis by simp
    next
      case (Inr r)
      obtain t logs where r: "r = (t, logs)" by (cases r)
      have "posts (log_all logs w1) = posts w" using pw by (simp add: log_all_def)
      with Cons.IH [of _ "log_all logs w1"] p False Inr r show ?thesis by simp
    qed
  qed
qed

lemma pages_loop_posts: "posts (snd (pages_loop rp f tracks w)) = posts w"
proof (induction f arbitrary: tracks w)
  case (Fetch_raises e)
  then show ?case by simp
next
  case Fetch_falsy
  then show ?case by simp
next
  case (Last_page items)
  show ?case using items_loop_posts [of rp items tracks w]
    by (auto split: prod.splits sum.splits)
next
  case (Page items nxt)
  obtain r w1 where i: "items_loop rp items tracks w = (r, w1)"
    by (cases "items_loop rp items tracks w")
  then have pw: "posts w1 = posts w" using items_loop_posts [of rp items tracks w] by simp
  show ?case
  proof (cases r)
    case (Inl e)
    with i pw show ?thesis by simp
  next
    case (Inr p)
    obtain b tracks1 where p: "p = (b, tracks1)" by (cases p)
    show ?thesis
    proof (cases b)
      case True
      with i Inr p pw show ?thesis by simp
    next
      case False
      with Page.IH [of tracks1 w1] i Inr p pw show ?thesis by simp
    qed
  qed
qed

lemma get_playlist_tracks_posts: "posts (snd (get_playlist_tracks ev pid w)) = posts w"
  by (simp add: get_playlist_tracks_def pages_loop_posts)

lemma export_to_csv_posts: "posts (snd (export_to_csv ev playlist tracks w)) = posts w"
  by (simp add: export_to_csv_def read_clock_def write_file_def log_all_def Let_def
      split: option.splits)

lemma export_to_json_posts: "posts (snd (export_to_json ev playlist tracks w)) = posts w"
  by (simp add: export_to_json_def read_clock_def write_file_def log_all_def Let_def
      split: option.splits)

lemma export_to_txt_posts: "posts (snd (export_to_txt ev playlist tracks w)) = posts w"
  by (simp add: export_to_txt_def read_clock_def log_all_def Let_def split: option.splits)

lemma export_to_markdown_posts: "posts (snd (export_to_markdown ev playlist tracks w)) = posts w"
  by (simp add: export_to_markdown_def read_clock_def log_all_def Let_def split: option.splits)

lemma keep_posts:
  "posts (snd (case x of (Inl e, w1) \<Rightarrow> (Inl e, w1)
                | (Inr filepath, w1) \<Rightarrow>
                    (Inr (), w1\<lparr>exported_files := exported_files w1 @ [filepath]\<rparr>)))
     = posts (snd x)"
  by (cases x) (auto split: sum.splits)

lemma export_playlist_posted:
  assumes "list_all success (post_results ev w)"
  shows "posted ev (fst (export_playlist ev playlist tracks w))
           (snd (export_playlist ev playlist tracks w))"
proof (cases "export_format w")
  case DISCORD
  then show ?thesis using export_to_discord_posted [OF assms] by (simp add: export_playlist_def)
next
  case CSV
  then have "posts (snd (export_playlist ev playlist tracks w)) = posts w"
    by (simp add: export_playlist_def keep_posts export_to_csv_posts)
  then have "post_results ev (snd (export_playlist ev playlist tracks w)) = post_results ev w"
    by (rule post_results_cong)
  with assms show ?thesis by (simp add: posted_good)
next
  case JSON
  then have "posts (snd (export_playlist ev playlist tracks w)) = posts w"
    by (simp add: export_playlist_def keep_posts export_to_json_posts)
  then have "post_results ev (snd (export_playlist ev playlist tracks w)) = post_results ev w"
    by (rule post_results_cong)
  with assms show ?thesis by (simp add: posted_good)
next
  case TXT
  then have "posts (snd (export_playlist ev playlist tracks w)) = posts w"
    by (simp add: export_playlist_def keep_posts export_to_txt_posts)
  then have "post_results ev (snd (export_playlist ev playlist tracks w)) = post_results ev w"
    by (rule post_results_cong)
  with assms show ?thesis by (simp add: posted_good)
next
  case MARKDOWN
  then have "posts (snd (export_playlist ev playlist tracks w)) = posts w"
    by (simp add: export_playlist_def keep_posts export_to_markdown_posts)
  then have "post_results ev (snd (export_playlist ev playlist tracks w)) = post_results ev w"
    by (rule post_results_cong)
  with assms show ?thesis by (simp add: posted_good)
qed

lemma run_loop_posted:
  assumes "list_all success (post_results ev w)"
  shows "posted ev (fst (run_loop ev tot i pls w)) (snd (run_loop ev tot i pls w))"
  using assms
proof (induction pls arbitrary: i w)
  case Nil
  then show ?case by (simp add: posted_good)
next
  case (Cons playlist rest)
  obtain b w1 where p: "poll_cancelled w = (b, w1)" by (cases "poll_cancelled w")
  then have pw: "posts w1 = posts w" using poll_cancelled_posts [of w] by simp
  show ?case
  proof (cases b)
    case True
    have "post_results ev (log_all [Info_export_cancelled] w1) = post_results ev w"
      using pw by (simp add: post_results_def log_all_def)
    with p True Cons.prems show ?thesis by (simp add: posted_good)
  next
    case False
    let ?w2 = "emit (Progress i tot (u ''Exporting: '' @ playlist_name playlist)) w1"
    obtain r w3 where g: "get_playlist_tracks ev (playlist_id playlist) ?w2 = (r, w3)"
      by (cases "get_playlist_tracks ev (playlist_id playlist) ?w2")
    then have "posts w3 = posts ?w2"
      using get_playlist_tracks_posts [of ev "playlist_id playlist" ?w2] by simp
    with pw have pw3: "posts w3 = posts w" by (simp add: emit_def)
    with Cons.prems have good3: "list_all success (post_results ev w3)"
      by (simp add: post_results_cong [of w3 w])
    show ?thesis
    proof (cases r)
      case (Inl e)
      with p False g good3 show ?thesis by (simp add: Let_def posted_good)
    next
      case (Inr tracks)
      from p False have p': "poll_cancelled w = (False, w1)" by simp
      from g Inr have g': "get_playlist_tracks ev (playlist_id playlist) ?w2 = (Inr tracks, w3)"
        by simp
      note step = run_loop_step [OF p' g', of rest]
      show ?thesis
      proof (cases "tracks = []")
        case True
        let ?w4 = "log_all [Warning_no_tracks_found (playlist_name playlist)] w3"
        have "list_all success (post_results ev ?w4)"
          using good3 post_results_cong [of ?w4 w3 ev] by (simp add: log_all_def)
        from Cons.IH [OF this] True show ?thesis unfolding step by simp
      next
        case nonempty: False
        obtain r4 w4 where e: "export_playlist ev playlist tracks w3 = (r4, w4)"
          by (cases "export_playlist ev playlist tracks w3")
        with export_playlist_posted [OF good3, of playlist tracks] have pd: "posted ev r4 w4"
          by simp
        show ?thesis
        proof (cases r4)
          case (Inl e4)
          with pd have "posted ev (Inl e4 :: exn + bool) w4" by (simp add: posted_Inl_Inr)
          with e nonempty Inl show ?thesis unfolding step by simp
        next
          case (Inr x)
          with pd have "list_all success (post_results ev w4)" by (simp add: posted_Inr)
          from Cons.IH [OF this] e nonempty Inr show ?thesis unfolding step by simp
        qed
      qed
    qed
  qed
qed

lemma run_posts: "posts (snd (run ev w)) = posts (snd (run_loop ev (length (playlists w)) 0 (playlists w) w))"
  by (simp add: run_eq emit_def log_all_def split: prod.splits sum.splits bool.splits)

lemma post_results_nth:
  "k < length (posts w) \<Longrightarrow> post_results ev w ! k = post_response ev k (posts w ! k)"
  by (simp add: post_results_def)

lemma length_post_results: "length (post_results ev w) = length (posts w)"
  by (simp add: post_results_def)

lemma post_loop_first_fails:
  assumes "polls_until_cancel w = None" and "msgs \<noteq> []"
    and "post_response ev (length (posts w)) (hd msgs) = Status code"
    and "code \<noteq> 200" and "code \<noteq> 204"
  shows "post_loop ev msgs w
     = (Inl (Exception (u ''Failed to send to Discord: '' @ str_of_nat code)),
        w\<lparr>posts := posts w @ [hd msgs]\<rparr>)"
proof -
  from assms(2) obtain m ms where m: "msgs = m # ms" by (cases msgs) auto
  from assms(1) have p: "poll_cancelled w = (False, w)" by (simp add: poll_cancelled_def)
  from assms(3-5) p show ?thesis unfolding m by (simp add: Let_def)
qed

lemma str_of_nat_500: "str_of_nat 500 = u ''500''"
  by (simp add: str_of_nat.simps u_def)

lemma example_failed_post_run:
  "fst (run (example_env single_page_listing (Status 500))
          (new_worker DISCORD three_playlists (u ''out'') (u ''hook'') None))
     = Failed (Exception (u ''Failed to send to Discord: 500''))
   \<and> emitted (snd (run (example_env single_page_listing (Status 500))
          (new_worker DISCORD three_playlists (u ''out'') (u ''hook'') None)))
     = [Progress 0 3 (u ''Exporting: A''), Error (Exception (u ''Failed to send to Discord: 500''))]
   \<and> posts (snd (run (example_env single_page_listing (Status 500))
          (new_worker DISCORD three_playlists (u ''out'') (u ''hook'') None)))
     = [discord_header playlist_A [example_track]]"
proof -
  let ?ev = "example_env single_page_listing (Status 500)"
  let ?p = "example_playlist (u ''a'') (u ''A'')"
  let ?rest = "[example_playlist (u ''b'') (u ''B''), example_playlist (u ''c'') (u ''C'')]"
  let ?w = "new_worker DISCORD three_playlists (u ''out'') (u ''hook'') None"
  let ?w2 = "emit (Progress 0 3 (u ''Exporting: '' @ playlist_name ?p)) ?w"
  let ?w3 = "log_all [Warning_no_spotify_url (JStr (u ''x''))] ?w2"
  let ?e = "Exception (u ''Failed to send to Discord: 500'')"
  let ?msgs = "discord_messages (py_repr ?ev) ?p [example_track]"
  have pls: "playlists ?w = ?p # ?rest" by (simp add: new_worker_def three_playlists_def)
  have p: "poll_cancelled ?w = (False, ?w)" by (simp add: poll_cancelled_def new_worker_def)
  have g: "get_playlist_tracks ?ev (playlist_id ?p) ?w2 = (Inr [example_track], ?w3)"
    by (rule example_single_page) (simp add: emit_def new_worker_def)
  have m: "?msgs \<noteq> []" and h: "hd ?msgs = discord_header ?p [example_track]"
    using discord_messages_head [of "py_repr ?ev" ?p "[example_track]"] by simp_all
  have "post_loop ?ev ?msgs ?w3
     = (Inl (Exception (u ''Failed to send to Discord: '' @ str_of_nat 500)),
        ?w3\<lparr>posts := posts ?w3 @ [hd ?msgs]\<rparr>)"
    by (rule post_loop_first_fails [OF _ m])
       (simp_all add: log_all_def emit_def new_worker_def example_env_def)
  then have pl: "post_loop ?ev ?msgs ?w3 = (Inl ?e, ?w3\<lparr>posts := [discord_header ?p [example_track]]\<rparr>)"
    unfolding h str_of_nat_500 by (simp add: log_all_def emit_def new_worker_def u_def)
  have e: "export_playlist ?ev ?p [example_track] ?w3
      = (Inl ?e, ?w3\<lparr>posts := [discord_header ?p [example_track]]\<rparr>)"
    unfolding export_playlist_def export_to_discord_def pl
    by (simp add: log_all_def emit_def new_worker_def u_def)
  have rl: "run_loop ?ev 3 0 (?p # ?rest) ?w
      = (Inl ?e, ?w3\<lparr>posts := [discord_header ?p [example_track]]\<rparr>)"
    unfolding run_loop_step [OF p g] e by simp
  have len: "length (?p # ?rest) = 3" by simp
  have rl': "run_loop ?ev (length (playlists ?w)) 0 (playlists ?w) ?w
      = (Inl ?e, ?w3\<lparr>posts := [discord_header ?p [example_track]]\<rparr>)"
    unfolding pls len by (rule rl)
  have "run ?ev ?w = (Failed ?e, emit (Error ?e) (log_all [Exception_export_error ?e]
      (?w3\<lparr>posts := [discord_header ?p [example_track]]\<rparr>)))"
    by (simp add: run_eq rl' del: run_loop.simps)
  then show ?thesis
    by (simp add: emit_def log_all_def new_worker_def playlist_A_def example_playlist_def u_def)
qed

text \<open>
  C8, as amended. In every run that starts with no post made, a post that is answered with
  a status other than 200 and 204 is the last post of the run: the run fails with the
  exception "Failed to send to Discord: " followed by the status, its text is sent as the
  error signal, the last signal of the run, and nothing is posted any more, neither the
  remaining messages of this playlist nor anything for the playlists still to come.
\<close>

theorem C8_failed_post_aborts_run:
  assumes "posts w = []"
    and "k < length (posts (snd (run ev w)))"
    and "post_response ev k (posts (snd (run ev w)) ! k) = Status code"
    and "code \<noteq> 200" and "code \<noteq> 204"
  shows "Suc k = length (posts (snd (run ev w)))
     \<and> fst (run ev w) = Failed (Exception (u ''Failed to send to Discord: '' @ str_of_nat code))
     \<and> last (emitted (snd (run ev w)))
         = Error (Exception (u ''Failed to send to Discord: '' @ str_of_nat code))"
proof -
  let ?e = "Exception (u ''Failed to send to Discord: '' @ str_of_nat code)"
  obtain r w1 where l: "run_loop ev (length (playlists w)) 0 (playlists w) w = (r, w1)"
    by (cases "run_loop ev (length (playlists w)) 0 (playlists w) w")
  have "list_all success (post_results ev w)" using assms(1) by (simp add: post_results_def)
  from run_loop_posted [OF this, of "length (playlists w)" 0 "playlists w"] l
  have pd: "posted ev r w1" by simp
  from l have pw: "posts (snd (run ev w)) = posts w1" by (simp add: run_posts)
  from assms(2) pw have k: "k < length (posts w1)" by simp
  with assms(3) pw have nth: "post_results ev w1 ! k = Status code"
    by (simp add: post_results_nth)
  with assms(4,5) have bad: "\<not> success (post_results ev w1 ! k)" by (simp add: success_def)
  from k have kl: "k < length (post_results ev w1)" by (simp add: length_post_results)
  with bad have "\<not> list_all success (post_results ev w1)"
    by (auto simp: list_all_length)
  with pd obtain rs x where rs: "post_results ev w1 = rs @ [x]" "list_all success rs"
      "\<not> success x" "r = Inl (post_exn x)"
    unfolding posted_def by blast
  have kk: "k = length rs"
  proof (rule ccontr)
    assume "k \<noteq> length rs"
    with kl rs(1) have "k < length rs" by simp
    with rs(1,2) have "success (post_results ev w1 ! k)"
      by (simp add: nth_append list_all_length)
    with bad show False by simp
  qed
  with rs(1) nth have x: "x = Status code" by simp
  from kk rs(1) have 1: "Suc k = length (posts w1)"
    using length_post_results [of ev w1] by simp
  from rs(4) x have r: "r = Inl ?e" by simp
  with l have 2: "run ev w = (Failed ?e, emit (Error ?e) (log_all [Exception_export_error ?e] w1))"
    by (simp add: run_eq)
  from 1 2 pw show ?thesis by (simp add: emit_def)
qed

theorem C8_failed_post_aborts_run_witness:
  "posts (new_worker DISCORD three_playlists (u ''out'') (u ''hook'') None) = []
   \<and> 0 < length (posts (snd (run (example_env single_page_listing (Status 500))
          (new_worker DISCORD three_playlists (u ''out'') (u ''hook'') None))))
   \<and> post_response (example_env single_page_listing (Status 500)) 0
        (posts (snd (run (example_env single_page_listing (Status 500))
          (new_worker DISCORD three_playlists (u ''out'') (u ''hook'') None))) ! 0) = Status 500
   \<and> Suc 0 = length (posts (snd (run (example_env single_page_listing (Status 500))
          (new_worker DISCORD three_playlists (u ''out'') (u ''hook'') None))))
   \<and> fst (run (example_env single_page_listing (Status 500))
          (new_worker DISCORD three_playlists (u ''out'') (u ''hook'') None))
       = Failed (Exception (u ''Failed to send to Discord: '' @ str_of_nat 500))
   \<and> last (emitted (snd (run (example_env single_page_listing (Status 500))
          (new_worker DISCORD three_playlists (u ''out'') (u ''hook'') None))))
       = Error (Exception (u ''Failed to send to Discord: '' @ str_of_nat 500))"
proof -
  let ?ev = "example_env single_page_listing (Status 500)"
  let ?w = "new_worker DISCORD three_playlists (u ''out'') (u ''hook'') None"
  have a: "posts ?w = []" by (simp add: new_worker_def)
  have b: "0 < length (posts (snd (run ?ev ?w)))"
    using example_failed_post_run by simp
  have c: "post_response ?ev 0 (posts (snd (run ?ev ?w)) ! 0) = Status 500"
    by (simp add: example_env_def)
  have d: "(500::nat) \<noteq> 200" and e: "(500::nat) \<noteq> 204" by simp_all
  from C8_failed_post_aborts_run [OF a b c d e] a b c show ?thesis by blast
qed

text \<open>
  C8 as stated fails: in a webhook run over three playlists whose every post is answered
  with status 500, the first post (the header of the first playlist) is the only one. The
  run fails with that status, and the two sibling playlists are never started: there is no
  progress signal and no post for them.
\<close>

theorem C8_siblings_aborted_counterexample:
  "playlists (new_worker DISCORD three_playlists (u ''out'') (u ''hook'') None)
     = [playlist_A, example_playlist (u ''b'') (u ''B''), example_playlist (u ''c'') (u ''C'')]
   \<and> fst (run (example_env single_page_listing (Status 500))
          (new_worker DISCORD three_playlists (u ''out'') (u ''hook'') None))
     = Failed (Exception (u ''Failed to send to Discord: 500''))
   \<and> emitted (snd (run (example_env single_page_listing (Status 500))
          (new_worker DISCORD three_playlists (u ''out'') (u ''hook'') None)))
     = [Progress 0 3 (u ''Exporting: A''), Error (Exception (u ''Failed to send to Discord: 500''))]
   \<and> posts (snd (run (example_env single_page_listing (Status 500))
          (new_worker DISCORD three_playlists (u ''out'') (u ''hook'') None)))
     = [discord_header playlist_A [example_track]]"
proof -
  have "playlists (new_worker DISCORD three_playlists (u ''out'') (u ''hook'') None)
     = [playlist_A, example_playlist (u ''b'') (u ''B''), example_playlist (u ''c'') (u ''C'')]"
    by (simp add: new_worker_def three_playlists_def playlist_A_def)
  with example_failed_post_run show ?thesis by blast
qed

end
